theory Spec2Isabelle
  imports Main "HOL-Library.Sublist"
begin

unbundle bit_operations_syntax

section \<open>Python values used by the relay sequencer\<close>

text \<open>
  Python integers are unbounded: the relay word \<open>current_state\<close> is an \<open>int\<close> on which
  \<open>&\<close>, \<open>|\<close>, \<open>^\<close> and \<open>~\<close> are the two's complement operations \<open>AND\<close>, \<open>OR\<close>,
  \<open>XOR\<close> and \<open>NOT\<close>, and \<open>1 << pin\<close> is \<open>push_bit pin 1\<close>.
  Strings are lists of characters with code points 0 to 255.
  Durations handed to \<open>time.sleep\<close> are only passed on, never computed with; they are
  counted in milliseconds (\<open>0.3\<close> seconds is \<open>300\<close>).
\<close>

text \<open>\<open>str(n)\<close> for a non-negative integer.\<close>

fun str_nat :: "nat \<Rightarrow> string" where
  "str_nat n =
     (if n < 10 then [''0123456789'' ! n]
      else str_nat (n div 10) @ [''0123456789'' ! (n mod 10)])"

declare str_nat.simps [simp del]

text \<open>\<open>s.zfill(width)\<close>: zeros go after a leading sign.\<close>

definition zfill :: "nat \<Rightarrow> string \<Rightarrow> string" where
  "zfill width s =
     (if width \<le> length s then s
      else (case s of
              [] \<Rightarrow> replicate width CHR ''0''
            | c # cs \<Rightarrow>
                if c = CHR ''+'' \<or> c = CHR ''-''
                then c # replicate (width - length s) CHR ''0'' @ cs
                else replicate (width - length s) CHR ''0'' @ s))"

text \<open>The format \<open>f"{v:02d}"\<close> of a spin box value, which is never negative.\<close>

definition fmt_02d :: "nat \<Rightarrow> string" where
  "fmt_02d v = zfill 2 (str_nat v)"

text \<open>\<open>str.isspace\<close> on one character, for the code points 0 to 255.\<close>

definition isspace :: "char \<Rightarrow> bool" where
  "isspace c \<longleftrightarrow> c \<in> set [CHR 0x09, CHR 0x0A, CHR 0x0B, CHR 0x0C, CHR 0x0D,
                          CHR 0x1C, CHR 0x1D, CHR 0x1E, CHR 0x1F, CHR 0x20, CHR 0x85, CHR 0xA0]"

definition strip :: "string \<Rightarrow> string" where
  "strip s = rev (dropWhile isspace (rev (dropWhile isspace s)))"

text \<open>\<open>sep.join(parts)\<close>.\<close>

fun join :: "string \<Rightarrow> string list \<Rightarrow> string" where
  "join sep [] = []"
| "join sep [x] = x"
| "join sep (x # y # ys) = x @ sep @ join sep (y # ys)"

text \<open>\<open>s.split(c)\<close> for a separator of one character: the result is never empty.\<close>

fun split_on :: "char \<Rightarrow> string \<Rightarrow> string list" where
  "split_on c [] = [[]]"
| "split_on c (x # xs) =
     (if x = c then [] # split_on c xs
      else (case split_on c xs of [] \<Rightarrow> [[x]] | y # ys \<Rightarrow> (x # y) # ys))"

text \<open>
  \<open>s.splitlines()\<close>: a line ends at a line feed, a carriage return (with the line feed
  that follows it, if any), a vertical tab, a form feed, a file, group or record separator
  or a next-line character; the line break after the last line adds no empty line.
\<close>

definition is_linebreak :: "char \<Rightarrow> bool" where
  "is_linebreak c \<longleftrightarrow> c \<in> set [CHR 0x0A, CHR 0x0B, CHR 0x0C, CHR 0x0D,
                              CHR 0x1C, CHR 0x1D, CHR 0x1E, CHR 0x85]"

function splitlines :: "string \<Rightarrow> string list" where
  "splitlines [] = []"
| "splitlines (x # xs) =
     (if is_linebreak x
      then [] # splitlines (if x = CHR 0x0D \<and> take 1 xs = [CHR 0x0A] then drop 1 xs else xs)
      else (case splitlines xs of [] \<Rightarrow> [[x]] | l # ls \<Rightarrow> (x # l) # ls))"
  by pat_completeness auto
termination
  by (relation "measure length") auto

text \<open>
  \<open>int(s)\<close> on a string: surrounding white space is dropped, one sign is allowed, and the
  rest is groups of decimal digits separated by single underscores. \<open>None\<close> is the
  \<open>ValueError\<close>.
\<close>

definition is_digit :: "char \<Rightarrow> bool" where
  "is_digit c \<longleftrightarrow> c \<in> set ''0123456789''"

fun digit_groups :: "string \<Rightarrow> bool" where
  "digit_groups [] = False"
| "digit_groups [c] = is_digit c"
| "digit_groups (c # d # cs) =
     (is_digit c \<and> (if d = CHR ''_'' then digit_groups cs else digit_groups (d # cs)))"

definition digit_value :: "char \<Rightarrow> nat" where
  "digit_value c = length (takeWhile (\<lambda>d. d \<noteq> c) ''0123456789'')"

definition decimal_value :: "string \<Rightarrow> nat" where
  "decimal_value ds = foldl (\<lambda>acc c. 10 * acc + digit_value c) 0 ds"

definition py_int :: "string \<Rightarrow> int option" where
  "py_int s =
     (let t = strip s;
          negative = (take 1 t = ''-'');
          body = (if take 1 t = ''-'' \<or> take 1 t = ''+'' then drop 1 t else t)
      in if digit_groups body
         then Some ((if negative then - 1 else 1)
                    * int (decimal_value (filter (\<lambda>c. c \<noteq> CHR ''_'') body)))
         else None)"

text \<open>\<open>xs[i]\<close>: a negative index counts from the end; \<open>None\<close> is the \<open>IndexError\<close>.\<close>

definition py_index :: "'a list \<Rightarrow> int \<Rightarrow> 'a option" where
  "py_index xs i =
     (if 0 \<le> i \<and> i < int (length xs) then Some (xs ! nat i)
      else if i < 0 \<and> - int (length xs) \<le> i then Some (xs ! nat (int (length xs) + i))
      else None)"

text \<open>\<open>enumerate(xs, start=k)\<close>.\<close>

definition enumerate_from :: "nat \<Rightarrow> 'a list \<Rightarrow> (nat \<times> 'a) list" where
  "enumerate_from k xs = zip [k ..< k + length xs] xs"

section \<open>The application state\<close>

text \<open>
  What a run leaves behind, in order: the lines handed to \<open>global_log\<close>, the acquisitions
  and releases of \<open>state_lock\<close>, the words handed to \<open>gpio.write\<close>, the calls of
  \<open>time.sleep\<close> and the message boxes shown.
\<close>

datatype event =
    Log string
  | Acquire
  | Release
  | Write int
  | Sleep nat
  | MessageBox string string

text \<open>
  How a thread stops without reaching its end: a Python exception, or a wait on
  \<open>step_ready\<close> that nobody ends.
\<close>

datatype stop =
    KeyError string
  | ValueError string
  | IndexError
  | HardwareError
  | Blocked

text \<open>One row of the levels sheet: the widgets' current contents.\<close>

record row =
  row_zone :: string
  row_dim_ref :: string
  row_name :: string
  row_type :: string
  row_scenes :: "nat list"

text \<open>
  The fields of \<open>RelayControlApp\<close> and of \<open>LevelsSheetPage\<close> that the sequences read or
  write, the module constant \<open>SIMULATION_MODE\<close>, and the surroundings:
  \<open>gpio_current_state\<close> is the \<open>_current_state\<close> of the simulated controller,
  \<open>gpio_raises\<close> says that \<open>write\<close> of the real controller (pyftdi, not part of the
  repository) raises, \<open>disabled_play_buttons\<close> holds the "P" buttons that are disabled
  (by channel and scene digit), and \<open>operator_advances\<close> says that somebody presses
  "Next Step" whenever a sequence waits for it.
\<close>

record app =
  SIMULATION_MODE :: bool
  duration_spinner :: nat
  hardware_ready :: bool
  current_state :: int
  gpio_current_state :: int
  gpio_raises :: bool
  trace :: "event list"
  rows :: "row list"
  site_name_entry :: string
  date_entry :: string
  debug_mode :: bool
  step_ready :: bool
  program_button :: bool
  allocate_button :: bool
  next_step_button :: bool
  debug_button :: string
  disabled_play_buttons :: "(nat \<times> string) set"
  operator_advances :: bool

type_synonym result = "(stop \<times> app) + app"

text \<open>Statements one after the other: the first that stops ends the run.\<close>

fun run :: "(app \<Rightarrow> result) list \<Rightarrow> app \<Rightarrow> result" where
  "run [] s = Inr s"
| "run (f # fs) s = (case f s of Inl e \<Rightarrow> Inl e | Inr s' \<Rightarrow> run fs s')"

definition step :: "(app \<Rightarrow> app) \<Rightarrow> app \<Rightarrow> result" where
  "step f s = Inr (f s)"

definition raise :: "stop \<Rightarrow> app \<Rightarrow> result" where
  "raise e s = Inl (e, s)"

text \<open>
  \<open>threading.Thread(target=f, ...).start()\<close>: the thread's body runs where it is started
  and no other thread runs in between; \<open>Inl (e, s)\<close> says that the thread died of \<open>e\<close>
  and left the state \<open>s\<close>.
\<close>

definition start_thread :: "(app \<Rightarrow> result) \<Rightarrow> app \<Rightarrow> result" where
  "start_thread target s = target s"

section \<open>gui\_logger.py and the controller\<close>

definition global_log :: "string \<Rightarrow> app \<Rightarrow> app" where
  "global_log message s = s\<lparr>trace := trace s @ [Log message]\<rparr>"

text \<open>
  The recurring \<open>if SIMULATION_MODE: global_log(f"[SIMULATION] ...") else:
  global_log(f"...")\<close>.
\<close>

definition log_sim :: "string \<Rightarrow> app \<Rightarrow> app" where
  "log_sim message s =
     global_log (if SIMULATION_MODE s then ''[SIMULATION] '' @ message else message) s"

definition sleep :: "nat \<Rightarrow> app \<Rightarrow> app" where
  "sleep ms s = s\<lparr>trace := trace s @ [Sleep ms]\<rparr>"

text \<open>\<open>time.sleep(self.duration_spinner.value())\<close>.\<close>

definition sleep_duration :: "app \<Rightarrow> app" where
  "sleep_duration s = sleep (duration_spinner s) s"

text \<open>\<open>write\<close> of the simulated \<open>GpioMpsseController\<close> (relay\_control.py, lines 40-50).\<close>

definition dummy_write_relay :: "int \<Rightarrow> int \<Rightarrow> nat \<Rightarrow> app \<Rightarrow> app" where
  "dummy_write_relay changed_bits state i s =
     (if changed_bits AND push_bit i 1 \<noteq> 0
      then global_log (''[SIMULATION] Relay R'' @ str_nat i @ '' -> ''
                        @ (if state AND push_bit i 1 \<noteq> 0 then ''OFF'' else ''ON'')) s
      else s)"

definition dummy_write :: "int \<Rightarrow> app \<Rightarrow> app" where
  "dummy_write state s =
     (let changed_bits = gpio_current_state s XOR state
      in (fold (dummy_write_relay changed_bits state) [0 ..< 10] s)
           \<lparr>gpio_current_state := state\<rparr>)"

text \<open>
  \<open>self.gpio.write(state)\<close>: the simulated controller when \<open>SIMULATION_MODE\<close>, the real
  one otherwise.
\<close>

definition gpio_write :: "int \<Rightarrow> app \<Rightarrow> result" where
  "gpio_write state s =
     (if SIMULATION_MODE s then Inr (dummy_write state (s\<lparr>trace := trace s @ [Write state]\<rparr>))
      else if gpio_raises s then Inl (HardwareError, s)
      else Inr (s\<lparr>trace := trace s @ [Write state]\<rparr>))"

text \<open>\<open>with self.state_lock:\<close> releases the lock also when the body raises.\<close>

definition with_state_lock :: "(app \<Rightarrow> result) \<Rightarrow> app \<Rightarrow> result" where
  "with_state_lock body s =
     (case body (s\<lparr>trace := trace s @ [Acquire]\<rparr>) of
        Inl (e, s') \<Rightarrow> Inl (e, s'\<lparr>trace := trace s' @ [Release]\<rparr>)
      | Inr s' \<Rightarrow> Inr (s'\<lparr>trace := trace s' @ [Release]\<rparr>))"

section \<open>relay\_control.py\<close>

text \<open>\<open>RELAY_PINS = {str(i): i for i in range(10)}\<close>.\<close>

definition RELAY_PINS :: "string \<Rightarrow> nat option" where
  "RELAY_PINS = map_of (map (\<lambda>i. (str_nat i, i)) [0 ..< 10])"

text \<open>\<open>1 << RELAY_PINS[key]\<close>, handed on as the mask; a missing key is a \<open>KeyError\<close>.\<close>

definition with_pin :: "string \<Rightarrow> (int \<Rightarrow> app \<Rightarrow> result) \<Rightarrow> app \<Rightarrow> result" where
  "with_pin key body s =
     (case RELAY_PINS key of
        None \<Rightarrow> Inl (KeyError key, s)
      | Some pin \<Rightarrow> body (push_bit pin 1) s)"

text \<open>\<open>self.current_state &= ~m; self.gpio.write(self.current_state)\<close>.\<close>

definition clear_and_write :: "int \<Rightarrow> app \<Rightarrow> result" where
  "clear_and_write m s =
     gpio_write (current_state s AND NOT m) (s\<lparr>current_state := current_state s AND NOT m\<rparr>)"

text \<open>\<open>self.current_state |= m; self.gpio.write(self.current_state)\<close>.\<close>

definition set_and_write :: "int \<Rightarrow> app \<Rightarrow> result" where
  "set_and_write m s =
     gpio_write (current_state s OR m) (s\<lparr>current_state := current_state s OR m\<rparr>)"

text \<open>
  The two blocks on the guard relays,
  \<open>with self.state_lock: self.current_state &= ~((1 << RELAY_PINS["0"]) | (1 << RELAY_PINS["9"]));
  self.gpio.write(self.current_state)\<close> and the same with \<open>|=\<close>.
\<close>

definition guard_relays_on :: "app \<Rightarrow> result" where
  "guard_relays_on =
     with_state_lock (with_pin ''0'' (\<lambda>m0. with_pin ''9'' (\<lambda>m9. clear_and_write (m0 OR m9))))"

definition guard_relays_off :: "app \<Rightarrow> result" where
  "guard_relays_off =
     with_state_lock (with_pin ''0'' (\<lambda>m0. with_pin ''9'' (\<lambda>m9. set_and_write (m0 OR m9))))"

definition show_error_slot :: "string \<Rightarrow> string \<Rightarrow> app \<Rightarrow> app" where
  "show_error_slot title message s = s\<lparr>trace := trace s @ [MessageBox title message]\<rparr>"

text \<open>The guard at the head of every public operation.\<close>

definition when_ready :: "(app \<Rightarrow> result) \<Rightarrow> app \<Rightarrow> result" where
  "when_ready body s =
     (if \<not> hardware_ready s then Inr (show_error_slot ''Not Ready'' ''Hardware not ready.'' s)
      else body s)"

text \<open>\<open>_toggle_relay_thread\<close> (lines 259-283).\<close>

definition toggle_relay_thread :: "string \<Rightarrow> app \<Rightarrow> result" where
  "toggle_relay_thread relay_number s =
     (let duration = duration_spinner s
      in with_pin relay_number (\<lambda>pin_mask. run
           [step (log_sim (''R'' @ relay_number @ '' ON'')),
            with_state_lock (clear_and_write pin_mask),
            step (sleep duration),
            with_state_lock (set_and_write pin_mask),
            step (log_sim (''R'' @ relay_number @ '' OFF''))]) s)"

definition toggle_relay :: "string \<Rightarrow> app \<Rightarrow> result" where
  "toggle_relay relay_number = when_ready (start_thread (toggle_relay_thread relay_number))"

text \<open>The body of the loops over a list of relay keys (lines 320-342 and 383-405).\<close>

definition pulse_in_sequence :: "string \<Rightarrow> string \<Rightarrow> app \<Rightarrow> result" where
  "pulse_in_sequence mode_name relay =
     with_pin relay (\<lambda>pin_mask. run
       [step (log_sim (mode_name @ '': R'' @ relay @ '' ON'')),
        with_state_lock (clear_and_write pin_mask),
        step sleep_duration,
        with_state_lock (set_and_write pin_mask),
        step (log_sim (mode_name @ '': R'' @ relay @ '' OFF'')),
        step (sleep 100)])"

text \<open>\<open>_programming_mode_thread\<close> (lines 304-352).\<close>

definition programming_mode_thread :: "app \<Rightarrow> result" where
  "programming_mode_thread = run
     [step (log_sim ''Prog Mode: Start''),
      guard_relays_on,
      step (log_sim ''Prog Mode: R0 & R9 ON''),
      step (sleep 300),
      run (map (pulse_in_sequence ''Prog Mode'') [''2'', ''1'', ''2'', ''1'']),
      guard_relays_off,
      step (log_sim ''Prog Mode: R0 & R9 OFF''),
      step (log_sim ''Prog Mode: End'')]"

definition programming_mode :: "app \<Rightarrow> result" where
  "programming_mode = when_ready (start_thread programming_mode_thread)"

text \<open>\<open>_sequence_mode_thread\<close> (lines 367-415).\<close>

definition sequence_mode_thread :: "string \<Rightarrow> string list \<Rightarrow> app \<Rightarrow> result" where
  "sequence_mode_thread mode_name sequence = run
     [step (log_sim (mode_name @ '': Start'')),
      guard_relays_on,
      step (log_sim (mode_name @ '': R0 & R9 ON'')),
      step (sleep 300),
      run (map (pulse_in_sequence mode_name) sequence),
      guard_relays_off,
      step (log_sim (mode_name @ '': R0 & R9 OFF'')),
      step (log_sim (mode_name @ '': End''))]"

text \<open>
  \<open>reset_mode\<close> (lines 354-365); \<open>confirmed\<close> is the answer to the question box.
\<close>

definition reset_mode :: "bool \<Rightarrow> app \<Rightarrow> result" where
  "reset_mode confirmed =
     when_ready (\<lambda>s.
       if confirmed
       then start_thread (sequence_mode_thread ''Reset'' [''4'', ''5'', ''6'', ''6'']) s
       else Inr (log_sim ''Reset canceled.'' s))"

text \<open>\<open>_single_press_mode_thread\<close> (lines 417-473).\<close>

definition single_press_mode_thread :: "string \<Rightarrow> string \<Rightarrow> app \<Rightarrow> result" where
  "single_press_mode_thread mode_name relay_key = run
     [step (log_sim (mode_name @ '': Start'')),
      (if prefix ''Exit Prog Mode'' mode_name
       then run [guard_relays_on,
                 step (log_sim (mode_name @ '': R0 & R9 ON'')),
                 step (sleep 300)]
       else run []),
      with_pin relay_key (\<lambda>pin_mask. run
        [step (log_sim (mode_name @ '': R'' @ relay_key @ '' ON'')),
         with_state_lock (clear_and_write pin_mask),
         step sleep_duration,
         with_state_lock (set_and_write pin_mask),
         step (log_sim (mode_name @ '': R'' @ relay_key @ '' OFF'')),
         step (sleep 100)]),
      (if prefix ''Exit Prog Mode'' mode_name
       then run [guard_relays_off,
                 step (log_sim (mode_name @ '': R0 & R9 OFF''))]
       else run []),
      step (log_sim (mode_name @ '': End''))]"

text \<open>\<open>_double_press_mode_thread\<close> (lines 479-504).\<close>

definition double_press_mode_thread :: "string \<Rightarrow> string \<Rightarrow> string \<Rightarrow> app \<Rightarrow> result" where
  "double_press_mode_thread mode_name relay_key1 relay_key2 = run
     [step (log_sim (mode_name @ '': Start'')),
      with_state_lock
        (with_pin relay_key1 (\<lambda>m1. with_pin relay_key2 (\<lambda>m2. clear_and_write (m1 OR m2)))),
      step (log_sim (mode_name @ '': R'' @ relay_key1 @ '' & R'' @ relay_key2 @ '' ON'')),
      step sleep_duration,
      with_state_lock
        (with_pin relay_key1 (\<lambda>m1. with_pin relay_key2 (\<lambda>m2. set_and_write (m1 OR m2)))),
      step (log_sim (mode_name @ '': R'' @ relay_key1 @ '' & R'' @ relay_key2 @ '' OFF'')),
      step (log_sim (mode_name @ '': End''))]"

text \<open>The single press operations (lines 508-555).\<close>

definition scene_mode :: "string \<Rightarrow> app \<Rightarrow> result" where
  "scene_mode scene_digit =
     when_ready (start_thread
       (single_press_mode_thread (''Scene Mode ('' @ scene_digit @ '')'') scene_digit))"

definition channel_mode :: "app \<Rightarrow> result" where
  "channel_mode = when_ready (start_thread (single_press_mode_thread ''Channel Mode'' ''2''))"

definition level_mode :: "app \<Rightarrow> result" where
  "level_mode = when_ready (start_thread (single_press_mode_thread ''Level Mode'' ''3''))"

definition fade_short_mode :: "app \<Rightarrow> result" where
  "fade_short_mode = when_ready (start_thread (single_press_mode_thread ''Fade Short'' ''4''))"

definition fade_long_mode :: "app \<Rightarrow> result" where
  "fade_long_mode = when_ready (start_thread (single_press_mode_thread ''Fade Long'' ''5''))"

definition circuit_activation :: "app \<Rightarrow> result" where
  "circuit_activation = when_ready (start_thread (single_press_mode_thread ''Circuit Act.'' ''6''))"

definition copy_mode :: "app \<Rightarrow> result" where
  "copy_mode = when_ready (start_thread (single_press_mode_thread ''Copy'' ''7''))"

definition exit_programming_mode :: "app \<Rightarrow> result" where
  "exit_programming_mode =
     when_ready (start_thread (single_press_mode_thread ''Exit Prog Mode'' ''8''))"

text \<open>\<open>zone_left\<close> and \<open>zone_right\<close> (lines 557-567).\<close>

definition zone_left :: "app \<Rightarrow> result" where
  "zone_left =
     when_ready (start_thread (sequence_mode_thread ''Zone Left'' [''8'', ''7'', ''1'', ''1'']))"

definition zone_right :: "app \<Rightarrow> result" where
  "zone_right =
     when_ready (start_thread (sequence_mode_thread ''Zone Right'' [''8'', ''7'', ''2'', ''2'']))"

text \<open>
  \<open>program_zone\<close> (lines 606-944). \<open>debug_callback\<close> is \<open>None\<close> or the checkpoint of the
  levels sheet; \<open>wait_for_debug\<close> is the inner helper of lines 619-621.
\<close>

definition wait_for_debug :: "(app \<Rightarrow> result) option \<Rightarrow> app \<Rightarrow> result" where
  "wait_for_debug debug_callback =
     (case debug_callback of None \<Rightarrow> run [] | Some callback \<Rightarrow> callback)"

text \<open>The pulse of half a second that \<open>program_zone\<close> repeats (lines 674-694).\<close>

definition zone_pulse :: "string \<Rightarrow> string \<Rightarrow> app \<Rightarrow> result" where
  "zone_pulse mode_name relay =
     with_pin relay (\<lambda>pin_mask. run
       [step (log_sim (mode_name @ '': R'' @ relay @ '' ON'')),
        with_state_lock (clear_and_write pin_mask),
        step (sleep 500),
        with_state_lock (set_and_write pin_mask),
        step (log_sim (mode_name @ '': R'' @ relay @ '' OFF''))])"

text \<open>The pulse of the zone digit (lines 745-766 and 900-921).\<close>

definition zone_digit :: "string \<Rightarrow> string \<Rightarrow> app \<Rightarrow> result" where
  "zone_digit mode_name zone =
     with_pin zone (\<lambda>pin_mask. run
       [step (log_sim (mode_name @ '': R'' @ zone @ '' ON'')),
        with_state_lock (clear_and_write pin_mask),
        step sleep_duration,
        with_state_lock (set_and_write pin_mask),
        step (log_sim (mode_name @ '': R'' @ zone @ '' OFF'')),
        step (log_sim (mode_name @ '': End''))])"

definition program_zone :: "string \<Rightarrow> (app \<Rightarrow> result) option \<Rightarrow> app \<Rightarrow> result" where
  "program_zone zone debug_callback =
     when_ready (run
       [step (log_sim ''=== STEP 2: Set Zone Left ===''),
        wait_for_debug debug_callback,
        step (log_sim ''Zone Left: Start''),
        guard_relays_on,
        step (log_sim ''Zone Left: R0 & R9 ON''),
        step (sleep 500),
        run (map (\<lambda>relay. run [zone_pulse ''Zone Left'' relay, step (sleep 300)]) [''8'', ''7'']),
        zone_pulse ''Zone Left'' ''1'',
        step (log_sim ''wait 0.3 secs''),
        step (sleep 300),
        zone_pulse ''Zone Left'' ''1'',
        step (sleep 300),
        guard_relays_off,
        step (log_sim ''Zone Left: R0 & R9 OFF''),
        step (log_sim ''Zone Left: End''),
        step (log_sim ''Zone Left Digit: Start''),
        zone_digit ''Zone Left Digit'' zone,
        step (log_sim ''wait 1 sec''),
        step (sleep 1000),
        wait_for_debug debug_callback,
        step (log_sim ''=== STEP 3: Set Zone Right ===''),
        wait_for_debug debug_callback,
        step (log_sim ''Zone Right: Start''),
        guard_relays_on,
        step (log_sim ''Zone Right: R0 & R9 ON''),
        step (sleep 500),
        run (map (\<lambda>relay. run [zone_pulse ''Zone Right'' relay, step (sleep 300)]) [''8'', ''7'']),
        zone_pulse ''Zone Right'' ''2'',
        zone_pulse ''Zone Right'' ''2'',
        step (sleep 300),
        guard_relays_off,
        step (log_sim ''Zone Right: R0 & R9 OFF''),
        step (log_sim ''Zone Right: End''),
        step (log_sim ''wait 0.3 secs''),
        step (sleep 300),
        step (log_sim ''Zone Right Digit: Start''),
        zone_digit ''Zone Right Digit'' zone,
        step (log_sim ''wait 2 sec''),
        step (sleep 2000),
        wait_for_debug debug_callback,
        step (log_sim (''Zone programming complete for zone '' @ zone)),
        step (log_sim ''wait 2 sec''),
        step (sleep 2000),
        wait_for_debug debug_callback])"

text \<open>
  \<open>_play_scene_level_sequence\<close> (lines 959-1077): \<open>execute_sequence\<close> runs in a thread
  of its own; \<open>callback\<close> is \<open>None\<close> or what re-enables the button.
\<close>

definition play_complete_message :: "nat \<Rightarrow> string \<Rightarrow> string \<Rightarrow> string" where
  "play_complete_message channel scene_digit level_value =
     ''=== COMPLETE: Play done for channel '' @ str_nat channel @ '', scene '' @ scene_digit
       @ '' with level '' @ level_value @ '' ===''"

definition execute_play_sequence ::
    "nat \<Rightarrow> string \<Rightarrow> string \<Rightarrow> (app \<Rightarrow> app) option \<Rightarrow> app \<Rightarrow> result" where
  "execute_play_sequence channel scene_digit level_value callback = run
     [step (log_sim ''=== STEP 1: Exit Programming Mode ===''),
      single_press_mode_thread ''Exit Prog Mode'' ''8'',
      step (sleep 1000),
      step (log_sim ''=== STEP 2: Enter Programming Mode ===''),
      programming_mode_thread,
      step (sleep 1000),
      step (log_sim ''=== STEP 3: Quick Scene Mode ===''),
      double_press_mode_thread ''Quick Scene'' ''1'' ''5'',
      step (sleep 1000),
      step (log_sim (''=== STEP 4: Quick Scene Digit ('' @ scene_digit @ '') ==='')),
      single_press_mode_thread ''Quick Scene Digit'' scene_digit,
      step (sleep 1000),
      step (log_sim ''=== STEP 5: Quick Circuit Mode ===''),
      double_press_mode_thread ''Quick Circuit'' ''2'' ''6'',
      step (sleep 1000),
      step (log_sim (''=== STEP 6: Circuit Digit ('' @ str_nat channel @ '') ==='')),
      run (map (\<lambda>digit. run [single_press_mode_thread ''Circuit Digit'' [digit],
                              step (sleep 1000)])
             (zfill 2 (str_nat channel))),
      step (log_sim ''=== STEP 7: Quick Level Mode ===''),
      double_press_mode_thread ''Quick Level'' ''3'' ''7'',
      step (sleep 1000),
      step (log_sim (''=== STEP 8: Level Digit ('' @ level_value @ '') ==='')),
      run (map (\<lambda>digit. run [single_press_mode_thread ''Level Digit'' [digit],
                              step (sleep 1000)])
             (zfill 2 level_value)),
      step (log_sim ''=== STEP 9: Exit Programming Mode ===''),
      single_press_mode_thread ''Exit Prog Mode'' ''8'',
      step (sleep 1000),
      step (log_sim (play_complete_message channel scene_digit level_value)),
      step (case callback of None \<Rightarrow> (\<lambda>s. s) | Some f \<Rightarrow> f)]"

definition play_scene_level_sequence ::
    "nat \<Rightarrow> string \<Rightarrow> string \<Rightarrow> (app \<Rightarrow> app) option \<Rightarrow> app \<Rightarrow> result" where
  "play_scene_level_sequence channel scene_digit level_value callback =
     start_thread (execute_play_sequence channel scene_digit level_value callback)"

text \<open>\<open>play_scene_level\<close> (lines 948-957).\<close>

definition play_scene_level ::
    "nat \<Rightarrow> string \<Rightarrow> string \<Rightarrow> (app \<Rightarrow> app) option \<Rightarrow> app \<Rightarrow> result" where
  "play_scene_level channel scene_digit level_value callback = run
     [step (log_sim (''Playing channel '' @ str_nat channel @ '', scene '' @ scene_digit
                      @ '' with level '' @ level_value)),
      start_thread (play_scene_level_sequence channel scene_digit level_value callback)]"

section \<open>levels\_sheet\_page.py\<close>

text \<open>
  \<open>play_level_with_lock\<close> (lines 203-208), for the "P" button of a channel and scene
  digit; \<open>level_value\<close> is \<open>f"{sp.value():02d}"\<close> of the spin box beside the button.
\<close>

definition play_level_with_lock :: "nat \<Rightarrow> string \<Rightarrow> string \<Rightarrow> app \<Rightarrow> result" where
  "play_level_with_lock channel scene_digit level_value s =
     play_scene_level channel scene_digit level_value
       (Some (\<lambda>t. t\<lparr>disabled_play_buttons := disabled_play_buttons t - {(channel, scene_digit)}\<rparr>))
       (s\<lparr>disabled_play_buttons := insert (channel, scene_digit) (disabled_play_buttons s)\<rparr>)"

text \<open>\<open>read_table_data\<close> (lines 327-339): one entry for each row, numbered from 1.\<close>

record entry =
  entry_channel :: nat
  entry_zone :: string
  entry_dimRef :: string
  entry_name :: string
  entry_type :: string
  entry_scenes :: "string list"

definition read_table_data :: "app \<Rightarrow> entry list" where
  "read_table_data s =
     map (\<lambda>(idx, r). \<lparr>entry_channel = idx, entry_zone = row_zone r, entry_dimRef = row_dim_ref r,
                        entry_name = row_name r, entry_type = row_type r,
                        entry_scenes = map fmt_02d (row_scenes r)\<rparr>)
       (enumerate_from 1 (rows s))"

text \<open>\<open>generate_csv_data\<close> (lines 300-325).\<close>

definition scene_labels :: "string list" where
  "scene_labels = map (\<lambda>i. ''Scene '' @ str_nat i) [1 ..< 10] @ [''Scene 0'']"

definition generate_csv_data :: "app \<Rightarrow> string" where
  "generate_csv_data s =
     (let site_name = strip (site_name_entry s);
          site_date = strip (date_entry s);
          line1 = [''Site Name:'', site_name] @ replicate 13 '''';
          line2 = [''Date:'', site_date] @ replicate 13 '''';
          headers = [''Channel'', ''Zone'', ''Dim Ref'', ''Name'', ''Type''] @ scene_labels
      in join [CHR 0x0A]
           ([join '','' line1, join '','' line2, join '','' headers]
            @ map (\<lambda>e. join '','' ([str_nat (entry_channel e), entry_zone e, entry_dimRef e,
                                       entry_name e, entry_type e] @ entry_scenes e))
                (read_table_data s)))"

text \<open>
  \<open>parse_csv\<close> (lines 341-366). The rows it returns hold strings throughout, the channel
  included.
\<close>

record parsed_row =
  parsed_channel :: string
  parsed_zone :: string
  parsed_dimRef :: string
  parsed_name :: string
  parsed_type :: string
  parsed_scenes :: "string list"

record parsed =
  siteName :: string
  siteDate :: string
  parsed_rows :: "parsed_row list"

definition second_cell :: "string \<Rightarrow> stop + string" where
  "second_cell line =
     (case split_on CHR '','' line of
        c0 # c1 # cells \<Rightarrow> Inr (strip c1)
      | _ \<Rightarrow> Inl IndexError)"

definition parse_data_row :: "string \<Rightarrow> parsed_row list" where
  "parse_data_row line =
     (let cells = map strip (split_on CHR '','' line)
      in if length cells < 15 then []
         else [\<lparr>parsed_channel = cells ! 0, parsed_zone = cells ! 1, parsed_dimRef = cells ! 2,
                parsed_name = cells ! 3, parsed_type = cells ! 4,
                parsed_scenes = take 10 (drop 5 cells)\<rparr>])"

definition parse_csv :: "string \<Rightarrow> stop + parsed" where
  "parse_csv csv_text =
     (let lines = filter (\<lambda>line. strip line \<noteq> '''') (splitlines csv_text)
      in if length lines < 4 then Inl (ValueError ''CSV does not have enough lines.'')
         else (case second_cell (lines ! 0) of
                 Inl e \<Rightarrow> Inl e
               | Inr site_name \<Rightarrow>
                   (case second_cell (lines ! 1) of
                      Inl e \<Rightarrow> Inl e
                    | Inr site_date \<Rightarrow>
                        Inr \<lparr>siteName = site_name, siteDate = site_date,
                             parsed_rows = concat (map parse_data_row (drop 3 lines))\<rparr>)))"

text \<open>
  \<open>toggle_debug_mode\<close>, \<open>on_next_step\<close> and \<open>wait_for_next_step\<close> (lines 402-425).
  \<open>step_ready.wait()\<close> returns at once when the event is set; otherwise the thread sleeps
  until somebody sets it, which here is the operator pressing "Next Step", and a thread
  that nobody wakes stays \<open>Blocked\<close>.
\<close>

definition toggle_debug_mode :: "app \<Rightarrow> app" where
  "toggle_debug_mode s =
     (let s1 = s\<lparr>debug_mode := \<not> debug_mode s\<rparr>;
          s2 = (if debug_mode s1
                then s1\<lparr>debug_button := ''Debug Mode: ON'', next_step_button := True\<rparr>
                else s1\<lparr>debug_button := ''Debug Mode: OFF'', next_step_button := False,
                        step_ready := True\<rparr>)
      in global_log (''Debug mode '' @ (if debug_mode s2 then ''enabled'' else ''disabled'')) s2)"

definition on_next_step :: "app \<Rightarrow> app" where
  "on_next_step s = (global_log ''Proceeding to next step...'' s)\<lparr>step_ready := True\<rparr>"

definition step_ready_wait :: "app \<Rightarrow> result" where
  "step_ready_wait s =
     (if step_ready s then Inr s
      else if operator_advances s then Inr (on_next_step s)
      else Inl (Blocked, s))"

definition wait_for_next_step :: "app \<Rightarrow> result" where
  "wait_for_next_step s =
     (if debug_mode s
      then run [step (global_log ''Waiting for Next Step button...''),
                step (\<lambda>t. t\<lparr>step_ready := False\<rparr>),
                step_ready_wait] s
      else Inr s)"

text \<open>
  \<open>program_scene_levels_sequence\<close> (lines 427-543). \<open>channels_to_program\<close> is the loop
  of lines 453-458, in which \<open>int(scene_digit)\<close> and the index into the scenes may raise.
\<close>

fun channels_to_program ::
    "string \<Rightarrow> string \<Rightarrow> (nat \<times> row) list \<Rightarrow> stop + (nat \<times> string) list" where
  "channels_to_program scene_digit zone [] = Inr []"
| "channels_to_program scene_digit zone ((idx, r) # rest) =
     (if row_zone r = zone
      then (case (if scene_digit = ''0'' then Some 9
                  else map_option (\<lambda>v. v - 1) (py_int scene_digit)) of
              None \<Rightarrow> Inl (ValueError scene_digit)
            | Some scene_index \<Rightarrow>
                (case py_index (row_scenes r) scene_index of
                   None \<Rightarrow> Inl IndexError
                 | Some v \<Rightarrow>
                     (case channels_to_program scene_digit zone rest of
                        Inl e \<Rightarrow> Inl e
                      | Inr channels \<Rightarrow> Inr ((idx, fmt_02d v) # channels))))
      else channels_to_program scene_digit zone rest)"

definition checkpoint_callback :: "app \<Rightarrow> (app \<Rightarrow> result) option" where
  "checkpoint_callback s = (if debug_mode s then Some wait_for_next_step else None)"

definition program_channel :: "string \<Rightarrow> string \<Rightarrow> nat \<times> string \<Rightarrow> app \<Rightarrow> result" where
  "program_channel scene_digit zone channel =
     (case channel of (idx, level_value) \<Rightarrow> run
       [step (global_log (''=== Programming channel '' @ str_nat idx @ '' with level ''
                @ level_value @ '' for scene '' @ scene_digit @ '' (zone '' @ zone @ '') ==='')),
        step (global_log (''=== STEP 7: Quick Circuit Operation (Channel '' @ str_nat idx @ '') ==='')),
        double_press_mode_thread ''Quick Circuit'' ''2'' ''6'',
        step (sleep 500),
        step (global_log ''wait 0.2secs''),
        step (sleep 200),
        wait_for_next_step,
        step (global_log (''=== STEP 8: Circuit Digits '' @ str_nat idx
                @ '' (Channel '' @ str_nat idx @ '') ==='')),
        run (map (\<lambda>digit. run [single_press_mode_thread ''Circuit Digit'' [digit],
                                step (sleep 500),
                                wait_for_next_step])
               (zfill 2 (str_nat idx))),
        step (global_log ''wait 0.2secs''),
        step (sleep 200),
        step (global_log (''=== STEP 9: Quick Level Operation (Channel '' @ str_nat idx @ '') ==='')),
        double_press_mode_thread ''Quick Level'' ''3'' ''7'',
        step (sleep 500),
        step (global_log ''wait 0.2secs''),
        step (sleep 200),
        wait_for_next_step,
        step (global_log (''=== STEP 10: Level Digits '' @ level_value
                @ '' (Channel '' @ str_nat idx @ '') ==='')),
        run (map (\<lambda>digit. run [single_press_mode_thread ''Level Digit'' [digit],
                                step (sleep 500),
                                wait_for_next_step])
               (zfill 2 level_value)),
        step (global_log ''wait 0.2secs''),
        step (sleep 200),
        step (global_log (''=== Channel '' @ str_nat idx @ '' programmed ===''))])"

text \<open>Lines 460-532: what follows once the channels to program are known.\<close>

definition program_channels :: "string \<Rightarrow> string \<Rightarrow> (nat \<times> string) list \<Rightarrow> app \<Rightarrow> result" where
  "program_channels scene_digit zone channels = run
     [step (global_log ''=== STEP 5: Quick Scene Operation ===''),
      double_press_mode_thread ''Quick Scene'' ''1'' ''5'',
      step (sleep 500),
      step (global_log ''wait 0.2secs''),
      step (sleep 200),
      wait_for_next_step,
      step (global_log (''=== STEP 6: Scene Digit '' @ scene_digit @ '' ==='')),
      single_press_mode_thread ''Scene digit'' scene_digit,
      step (sleep 500),
      step (global_log ''wait 0.2secs''),
      step (sleep 200),
      wait_for_next_step,
      run (map (program_channel scene_digit zone) channels)]"

definition program_scene_levels_sequence :: "string \<Rightarrow> string \<Rightarrow> app \<Rightarrow> result" where
  "program_scene_levels_sequence scene_digit zone = run
     [step (global_log ''=== Starting programming sequence ===''),
      step (global_log ''=== STEP 1: Exit Programming Mode ===''),
      single_press_mode_thread ''Exit Prog Mode'' ''8'',
      step (sleep 200),
      wait_for_next_step,
      (\<lambda>s. program_zone zone (checkpoint_callback s) s),
      step (sleep 500),
      step (global_log ''=== STEP 4: Enter Programming Mode ===''),
      programming_mode_thread,
      step (sleep 500),
      step (global_log ''wait 0.2secs''),
      step (sleep 200),
      wait_for_next_step,
      (\<lambda>s. case channels_to_program scene_digit zone (enumerate_from 1 (rows s)) of
              Inl e \<Rightarrow> Inl (e, s)
            | Inr channels \<Rightarrow> program_channels scene_digit zone channels s),
      step (global_log ''=== STEP 11: Exit Programming Mode ===''),
      single_press_mode_thread ''Exit Prog Mode'' ''8'',
      step (sleep 500),
      wait_for_next_step,
      step (global_log ''=== Programming sequence complete ===''),
      step (\<lambda>s. s\<lparr>program_button := True\<rparr>)]"

text \<open>
  \<open>on_program_scene_levels\<close> (lines 368-400): the two choices are what the input dialogs
  return, the text and whether it was accepted, and \<open>confirmed\<close> is the answer to the
  question box.
\<close>

definition on_program_scene_levels ::
    "string \<times> bool \<Rightarrow> string \<times> bool \<Rightarrow> bool \<Rightarrow> app \<Rightarrow> result" where
  "on_program_scene_levels scene_choice zone_choice confirmed s =
     (if \<not> snd scene_choice then Inr s
      else if \<not> snd zone_choice then Inr s
      else if \<not> confirmed then Inr s
      else start_thread (program_scene_levels_sequence (fst scene_choice) (fst zone_choice))
             (s\<lparr>program_button := False\<rparr>))"

text \<open>\<open>allocate_to_zones_sequence\<close> (lines 581-634) and its \<open>execute_sequence\<close>.\<close>

definition allocate_row :: "string \<Rightarrow> nat \<times> row \<Rightarrow> app \<Rightarrow> result" where
  "allocate_row zone numbered =
     (case numbered of (idx, r) \<Rightarrow>
        (let alloc_digit = (if row_zone r = zone then ''1'' else ''0'') in run
          [step (global_log (''=== Allocating channel '' @ str_nat idx @ '' with digit ''
                   @ alloc_digit @ '' ==='')),
           run (map (\<lambda>digit. run [single_press_mode_thread ''Circuit Digit'' [digit],
                                   step (sleep 500),
                                   wait_for_next_step])
                  (zfill 2 (str_nat idx))),
           single_press_mode_thread ''Circuit Act Digit'' alloc_digit,
           step (sleep 500),
           wait_for_next_step]))"

definition execute_allocate_sequence :: "string \<Rightarrow> app \<Rightarrow> result" where
  "execute_allocate_sequence zone = run
     [step (global_log ''=== Starting allocation sequence ===''),
      step (global_log ''=== STEP 1: Exit Programming Mode ===''),
      single_press_mode_thread ''Exit Prog Mode'' ''8'',
      step (sleep 500),
      wait_for_next_step,
      (\<lambda>s. program_zone zone (checkpoint_callback s) s),
      step (sleep 500),
      step (global_log ''=== STEP 4: Enter Programming Mode ===''),
      programming_mode_thread,
      step (sleep 500),
      wait_for_next_step,
      step (global_log ''=== STEP 5: Allocate Channels ===''),
      (\<lambda>s. run (map (allocate_row zone) (enumerate_from 1 (rows s))) s),
      step (global_log ''=== STEP 6: Exit Programming Mode ===''),
      single_press_mode_thread ''Exit Prog Mode'' ''8'',
      step (sleep 500),
      wait_for_next_step,
      step (global_log ''=== Allocation sequence complete ===''),
      step (\<lambda>s. s\<lparr>allocate_button := True\<rparr>)]"

definition allocate_to_zones_sequence :: "string \<Rightarrow> app \<Rightarrow> result" where
  "allocate_to_zones_sequence zone = start_thread (execute_allocate_sequence zone)"

text \<open>\<open>on_allocate_to_zones\<close> (lines 555-579).\<close>

definition on_allocate_to_zones :: "string \<times> bool \<Rightarrow> bool \<Rightarrow> app \<Rightarrow> result" where
  "on_allocate_to_zones zone_choice confirmed s =
     (if \<not> snd zone_choice then Inr s
      else if \<not> confirmed then Inr s
      else start_thread (allocate_to_zones_sequence (fst zone_choice))
             (s\<lparr>allocate_button := False\<rparr>))"

section \<open>Gui.py\<close>

text \<open>
  The Tkinter front end has no simulated controller: \<open>self.gpio.write\<close> is the real one,
  and \<open>self.log\<close> is \<open>global_log\<close>.
\<close>

definition Gui_gpio_write :: "int \<Rightarrow> app \<Rightarrow> result" where
  "Gui_gpio_write state s =
     (if gpio_raises s then Inl (HardwareError, s)
      else Inr (s\<lparr>trace := trace s @ [Write state]\<rparr>))"

definition Gui_clear_and_write :: "int \<Rightarrow> app \<Rightarrow> result" where
  "Gui_clear_and_write m s =
     Gui_gpio_write (current_state s AND NOT m) (s\<lparr>current_state := current_state s AND NOT m\<rparr>)"

definition Gui_set_and_write :: "int \<Rightarrow> app \<Rightarrow> result" where
  "Gui_set_and_write m s =
     Gui_gpio_write (current_state s OR m) (s\<lparr>current_state := current_state s OR m\<rparr>)"

text \<open>\<open>_sequence_mode_thread\<close> (Gui.py, lines 277-300).\<close>

definition Gui_pulse_in_sequence :: "string \<Rightarrow> string \<Rightarrow> app \<Rightarrow> result" where
  "Gui_pulse_in_sequence mode_name relay =
     with_pin relay (\<lambda>pin_mask. run
       [step (global_log (mode_name @ '': R'' @ relay @ '' ON'')),
        with_state_lock (Gui_clear_and_write pin_mask),
        step sleep_duration,
        with_state_lock (Gui_set_and_write pin_mask),
        step (global_log (mode_name @ '': R'' @ relay @ '' OFF'')),
        step (sleep 100)])"

definition Gui_sequence_mode_thread :: "string \<Rightarrow> string list \<Rightarrow> app \<Rightarrow> result" where
  "Gui_sequence_mode_thread mode_name sequence = run
     [step (global_log (mode_name @ '': Start'')),
      with_state_lock
        (with_pin ''0'' (\<lambda>m0. with_pin ''9'' (\<lambda>m9. Gui_clear_and_write (m0 OR m9)))),
      step (global_log (mode_name @ '': R0 & R9 held'')),
      step (sleep 300),
      run (map (Gui_pulse_in_sequence mode_name) sequence),
      with_state_lock
        (with_pin ''0'' (\<lambda>m0. with_pin ''9'' (\<lambda>m9. Gui_set_and_write (m0 OR m9)))),
      step (global_log (mode_name @ '': End''))]"

text \<open>\<open>zone_right\<close> (Gui.py, lines 364-368).\<close>

definition Gui_zone_right :: "app \<Rightarrow> result" where
  "Gui_zone_right s =
     (if \<not> hardware_ready s
      then Inr (s\<lparr>trace := trace s @ [MessageBox ''Not Ready'' ''Hardware not ready.'']\<rparr>)
      else start_thread (Gui_sequence_mode_thread ''Zone Right'' [''8'', ''7'', ''1'', ''2'']) s)"


section \<open>Observations and the catalog of the specification\<close>

fun writes :: "event list \<Rightarrow> int list" where
  "writes [] = []"
| "writes (Write w # es) = w # writes es"
| "writes (e # es) = writes es"

fun is_hardware :: "event \<Rightarrow> bool" where
  "is_hardware (Log m) = False"
| "is_hardware (MessageBox t m) = False"
| "is_hardware e = True"

definition hardware :: "event list \<Rightarrow> event list" where
  "hardware tr = filter is_hardware tr"

datatype hw_op = Energize int | Deenergize int | Wait nat | Hold

fun apply_op :: "int \<Rightarrow> hw_op \<Rightarrow> int" where
  "apply_op w (Energize m) = w AND NOT m"
| "apply_op w (Deenergize m) = w OR m"
| "apply_op w (Wait n) = w"
| "apply_op w Hold = w"

definition final_word :: "int \<Rightarrow> hw_op list \<Rightarrow> int" where
  "final_word w ps = foldl apply_op w ps"

fun emit :: "nat \<Rightarrow> int \<Rightarrow> hw_op list \<Rightarrow> event list" where
  "emit d w [] = []"
| "emit d w (Energize m # ps) = [Acquire, Write (w AND NOT m), Release] @ emit d (w AND NOT m) ps"
| "emit d w (Deenergize m # ps) = [Acquire, Write (w OR m), Release] @ emit d (w OR m) ps"
| "emit d w (Wait n # ps) = Sleep n # emit d w ps"
| "emit d w (Hold # ps) = Sleep d # emit d w ps"

definition relay_mask :: "nat \<Rightarrow> int" where
  "relay_mask i = push_bit i 1"

definition guard_mask :: int where
  "guard_mask = relay_mask 0 OR relay_mask 9"

definition pulse :: "nat \<Rightarrow> hw_op list" where
  "pulse i = [Energize (relay_mask i), Hold, Deenergize (relay_mask i)]"

definition guardedSingle :: "nat \<Rightarrow> hw_op list" where
  "guardedSingle digit = [Energize guard_mask, Wait 300] @ pulse digit @ [Wait 100, Deenergize guard_mask]"

definition guardedMulti :: "nat list \<Rightarrow> hw_op list" where
  "guardedMulti digits =
     [Energize guard_mask, Wait 300] @ concat (map (\<lambda>digit. pulse digit @ [Wait 100]) digits)
       @ [Deenergize guard_mask]"

definition doublePress :: "nat \<Rightarrow> nat \<Rightarrow> hw_op list" where
  "doublePress a b = [Energize (relay_mask a OR relay_mask b), Hold, Deenergize (relay_mask a OR relay_mask b)]"

definition writable :: "app \<Rightarrow> bool" where
  "writable s \<longleftrightarrow> SIMULATION_MODE s \<or> \<not> gpio_raises s"

definition advance :: "app \<Rightarrow> app \<Rightarrow> int \<Rightarrow> event list \<Rightarrow> bool" where
  "advance s s' w hw \<longleftrightarrow>
     (\<exists>g tr. s' = s\<lparr>current_state := w, gpio_current_state := g, trace := trace s @ tr\<rparr>
             \<and> hardware tr = hw)"

definition performs :: "(app \<Rightarrow> result) \<Rightarrow> hw_op list \<Rightarrow> bool" where
  "performs f ps \<longleftrightarrow>
     (\<forall>s. writable s \<longrightarrow>
        (\<exists>s'. f s = Inr s' \<and>
           advance s s' (final_word (current_state s) ps)
             (emit (duration_spinner s) (current_state s) ps)))"

definition emits :: "app \<Rightarrow> (app \<Rightarrow> result) \<Rightarrow> hw_op list \<Rightarrow> bool" where
  "emits s f ps \<longleftrightarrow>
     (\<exists>s'. f s = Inr s' \<and> current_state s' = final_word (current_state s) ps \<and>
        hardware (trace s') = hardware (trace s) @ emit (duration_spinner s) (current_state s) ps)"

definition default_row :: row where
  "default_row = \<lparr>row_zone = ''1'', row_dim_ref = '''', row_name = '''', row_type = ''Dimmed'',
                   row_scenes = [90, 70, 50, 30, 99, 99, 99, 99, 99, 0]\<rparr>"

definition idle_app :: app where
  "idle_app = \<lparr>SIMULATION_MODE = True, duration_spinner = 500, hardware_ready = True,
      current_state = 0xFFFF, gpio_current_state = 0xFFFF, gpio_raises = False, trace = [],
      rows = replicate 18 default_row, site_name_entry = '''', date_entry = '''',
      debug_mode = False, step_ready = False, program_button = True, allocate_button = True,
      next_step_button = False, debug_button = ''Debug Mode: OFF'',
      disabled_play_buttons = {}, operator_advances = False\<rparr>"

fun words :: "int \<Rightarrow> hw_op list \<Rightarrow> int list" where
  "words w [] = []"
| "words w (Energize m # ps) = (w AND NOT m) # words (w AND NOT m) ps"
| "words w (Deenergize m # ps) = (w OR m) # words (w OR m) ps"
| "words w (Wait n # ps) = words w ps"
| "words w (Hold # ps) = words w ps"

definition written :: "result \<Rightarrow> int list option" where
  "written r = (case r of Inl e \<Rightarrow> None | Inr s' \<Rightarrow> Some (writes (trace s')))"

definition observed :: "result \<Rightarrow> event list option" where
  "observed r = (case r of Inl e \<Rightarrow> None | Inr s' \<Rightarrow> Some (hardware (trace s')))"


fun is_relay_op :: "hw_op \<Rightarrow> bool" where
  "is_relay_op (Energize m) = True"
| "is_relay_op (Deenergize m) = True"
| "is_relay_op p = False"

definition relay_ops :: "hw_op list \<Rightarrow> hw_op list" where
  "relay_ops ps = filter is_relay_op ps"

definition env_ok :: "app \<Rightarrow> bool" where
  "env_ok s \<longleftrightarrow>
     (SIMULATION_MODE s \<or> \<not> gpio_raises s) \<and> (debug_mode s \<longrightarrow> operator_advances s)"

definition same_env :: "app \<Rightarrow> app \<Rightarrow> bool" where
  "same_env s s' \<longleftrightarrow>
     SIMULATION_MODE s' = SIMULATION_MODE s \<and> gpio_raises s' = gpio_raises s \<and>
     duration_spinner s' = duration_spinner s \<and> hardware_ready s' = hardware_ready s \<and>
     rows s' = rows s \<and> debug_mode s' = debug_mode s \<and>
     operator_advances s' = operator_advances s"

definition carries :: "app \<Rightarrow> (app \<Rightarrow> result) \<Rightarrow> hw_op list \<Rightarrow> bool" where
  "carries s f ps \<longleftrightarrow>
     (\<exists>s'. f s = Inr s' \<and> same_env s s' \<and>
        current_state s' = final_word (current_state s) ps \<and>
        writes (trace s') = writes (trace s) @ words (current_state s) ps)"

definition carries_out :: "bool \<Rightarrow> row list \<Rightarrow> (app \<Rightarrow> result) \<Rightarrow> hw_op list \<Rightarrow> bool" where
  "carries_out hr rs f ps \<longleftrightarrow>
     (\<forall>s. env_ok s \<and> hardware_ready s = hr \<and> rows s = rs \<longrightarrow> carries s f ps)"

definition digitEntry :: "string \<Rightarrow> hw_op list" where
  "digitEntry text = concat (map (\<lambda>c. pulse (digit_value c)) text)"

definition zoneProgram :: "nat \<Rightarrow> hw_op list" where
  "zoneProgram z = guardedMulti [8, 7, 1, 1] @ pulse z @ guardedMulti [8, 7, 2, 2] @ pulse z"

definition channelProgram :: "nat \<times> string \<Rightarrow> hw_op list" where
  "channelProgram channel =
     (case channel of (idx, level_value) \<Rightarrow>
        doublePress 2 6 @ digitEntry (zfill 2 (str_nat idx))
          @ doublePress 3 7 @ digitEntry (zfill 2 level_value))"

definition programSceneForZone :: "bool \<Rightarrow> nat \<Rightarrow> nat \<Rightarrow> (nat \<times> string) list \<Rightarrow> hw_op list" where
  "programSceneForZone ready scene z channels =
     guardedSingle 8 @ (if ready then zoneProgram z else []) @ guardedMulti [2, 1, 2, 1]
       @ doublePress 1 5 @ pulse scene @ concat (map channelProgram channels) @ guardedSingle 8"

definition three_rows :: app where
  "three_rows = idle_app\<lparr>rows :=
     [\<lparr>row_zone = ''2'', row_dim_ref = '''', row_name = ''A'', row_type = ''Dimmed'',
       row_scenes = [10, 20, 30, 40, 50, 60, 70, 80, 90, 5]\<rparr>,
      \<lparr>row_zone = ''3'', row_dim_ref = '''', row_name = ''B'', row_type = ''Dimmed'',
       row_scenes = [11, 21, 31, 41, 51, 61, 71, 81, 91, 6]\<rparr>,
      \<lparr>row_zone = ''2'', row_dim_ref = '''', row_name = ''C'', row_type = ''Switched'',
       row_scenes = [1, 2, 3, 4, 5, 6, 7, 8, 9, 0]\<rparr>]\<rparr>"

definition allocateToZone :: "bool \<Rightarrow> nat \<Rightarrow> (nat \<times> bool) list \<Rightarrow> hw_op list" where
  "allocateToZone ready z allocation =
     guardedSingle 8 @ (if ready then zoneProgram z else []) @ guardedMulti [2, 1, 2, 1]
       @ concat (map (\<lambda>(idx, allocated).
                        digitEntry (zfill 2 (str_nat idx)) @ pulse (if allocated then 1 else 0))
                   allocation)
       @ guardedSingle 8"

definition final_writes :: "nat \<Rightarrow> result \<Rightarrow> int list option" where
  "final_writes n r = map_option (\<lambda>ws. drop (length ws - n) ws) (written r)"

definition hundred_rows :: app where
  "hundred_rows = idle_app\<lparr>rows := replicate 100 default_row\<rparr>"

definition zones_5_1_5 :: app where
  "zones_5_1_5 = idle_app\<lparr>rows :=
     [default_row\<lparr>row_zone := ''5''\<rparr>, default_row\<lparr>row_zone := ''1''\<rparr>,
      default_row\<lparr>row_zone := ''5''\<rparr>]\<rparr>"

section \<open>Lemmas\<close>

lemma writes_append [simp]: "writes (xs @ ys) = writes xs @ writes ys"
  by (induction xs rule: writes.induct) auto

lemma hardware_append [simp]: "hardware (xs @ ys) = hardware xs @ hardware ys"
  by (simp add: hardware_def)

lemma writes_hardware [simp]: "writes (hardware tr) = writes tr"
  unfolding hardware_def by (induction tr rule: writes.induct) auto

lemma final_word_simps [simp]:
  "final_word w [] = w"
  "final_word w (p # ps) = final_word (apply_op w p) ps"
  by (simp_all add: final_word_def)

lemma final_word_append: "final_word w (xs @ ys) = final_word (final_word w xs) ys"
  by (simp add: final_word_def)

lemma emit_append: "emit d w (xs @ ys) = emit d w xs @ emit d (final_word w xs) ys"
  by (induction d w xs rule: emit.induct) auto

lemma writes_map_Log [simp]: "writes (map Log ms) = []"
  by (induction ms) auto

lemma hardware_map_Log [simp]: "hardware (map Log ms) = []"
  by (induction ms) (auto simp: hardware_def)

text \<open>The simulated controller only logs.\<close>

lemma fold_dummy_write_relay:
  "\<exists>ms. fold (dummy_write_relay c w) is s = s\<lparr>trace := trace s @ map Log ms\<rparr>"
proof (induction "is" arbitrary: s)
  case Nil
  have "s = s\<lparr>trace := trace s @ map Log []\<rparr>" by simp
  then show ?case by (metis fold_simps(1))
next
  case (Cons i "is")
  obtain m where m: "dummy_write_relay c w i s = s\<lparr>trace := trace s @ map Log m\<rparr>"
  proof (cases "c AND push_bit i 1 \<noteq> 0")
    case True
    then show ?thesis
      using that [of "[''[SIMULATION] Relay R'' @ str_nat i @ '' -> ''
                        @ (if w AND push_bit i 1 \<noteq> 0 then ''OFF'' else ''ON'')]"]
      by (simp add: dummy_write_relay_def global_log_def)
  next
    case False
    then show ?thesis using that [of "[]"] by (simp add: dummy_write_relay_def)
  qed
  from Cons [of "dummy_write_relay c w i s"] obtain ms where
    "fold (dummy_write_relay c w) is (dummy_write_relay c w i s)
       = (dummy_write_relay c w i s)\<lparr>trace := trace (dummy_write_relay c w i s) @ map Log ms\<rparr>"
    by blast
  then have "fold (dummy_write_relay c w) (i # is) s = s\<lparr>trace := trace s @ map Log (m @ ms)\<rparr>"
    by (simp add: m)
  then show ?case by blast
qed

lemma dummy_write_shape:
  "\<exists>ms. dummy_write w s = s\<lparr>trace := trace s @ map Log ms, gpio_current_state := w\<rparr>"
proof -
  obtain ms where "fold (dummy_write_relay (gpio_current_state s XOR w) w) [0 ..< 10] s
      = s\<lparr>trace := trace s @ map Log ms\<rparr>"
    using fold_dummy_write_relay by blast
  then have "dummy_write w s = s\<lparr>trace := trace s @ map Log ms, gpio_current_state := w\<rparr>"
    by (simp add: dummy_write_def Let_def)
  then show ?thesis by blast
qed

lemma gpio_write_shape:
  assumes "SIMULATION_MODE s \<or> \<not> gpio_raises s"
  shows "\<exists>ms g. gpio_write w s = Inr (s\<lparr>trace := trace s @ Write w # map Log ms, gpio_current_state := g\<rparr>)"
proof (cases "SIMULATION_MODE s")
  case True
  obtain ms where "dummy_write w (s\<lparr>trace := trace s @ [Write w]\<rparr>)
     = (s\<lparr>trace := trace s @ [Write w]\<rparr>)\<lparr>trace := trace (s\<lparr>trace := trace s @ [Write w]\<rparr>) @ map Log ms, gpio_current_state := w\<rparr>"
    using dummy_write_shape by blast
  then have "gpio_write w s = Inr (s\<lparr>trace := trace s @ Write w # map Log ms, gpio_current_state := w\<rparr>)"
    using True by (simp add: gpio_write_def)
  then show ?thesis by blast
next
  case False
  then have "gpio_write w s = Inr (s\<lparr>trace := trace s @ Write w # map Log [], gpio_current_state := gpio_current_state s\<rparr>)"
    using assms by (simp add: gpio_write_def)
  then show ?thesis by blast
qed

lemma advance_refl: "advance s s (current_state s) []"
proof -
  have "s = s\<lparr>current_state := current_state s, gpio_current_state := gpio_current_state s,
             trace := trace s @ []\<rparr>" by simp
  moreover have "hardware [] = []" by (simp add: hardware_def)
  ultimately show ?thesis unfolding advance_def by blast
qed

lemma advance_trans:
  assumes "advance s s' w a" and "advance s' s'' w' b"
  shows "advance s s'' w' (a @ b)"
proof -
  from assms(1) obtain g tr where 1:
    "s' = s\<lparr>current_state := w, gpio_current_state := g, trace := trace s @ tr\<rparr>" "hardware tr = a"
    unfolding advance_def by blast
  from assms(2) obtain g' tr' where 2:
    "s'' = s'\<lparr>current_state := w', gpio_current_state := g', trace := trace s' @ tr'\<rparr>" "hardware tr' = b"
    unfolding advance_def by blast
  have "s'' = s\<lparr>current_state := w', gpio_current_state := g', trace := trace s @ (tr @ tr')\<rparr>"
    by (simp add: 1 2)
  moreover have "hardware (tr @ tr') = a @ b" by (simp add: 1 2)
  ultimately show ?thesis unfolding advance_def by blast
qed

lemma advance_fields:
  assumes "advance s s' w hw"
  shows "current_state s' = w" and "hardware (trace s') = hardware (trace s) @ hw"
    and "SIMULATION_MODE s' = SIMULATION_MODE s" and "gpio_raises s' = gpio_raises s"
    and "duration_spinner s' = duration_spinner s" and "hardware_ready s' = hardware_ready s"
    and "rows s' = rows s" and "debug_mode s' = debug_mode s"
    and "operator_advances s' = operator_advances s"
    and "step_ready s' = step_ready s" and "program_button s' = program_button s"
    and "allocate_button s' = allocate_button s"
    and "disabled_play_buttons s' = disabled_play_buttons s"
  using assms unfolding advance_def by auto

lemma advance_writable: "advance s s' w hw \<Longrightarrow> writable s \<Longrightarrow> writable s'"
  by (simp add: writable_def advance_fields)

lemma advance_append_trace:
  "advance s (s\<lparr>trace := trace s @ tr\<rparr>) (current_state s) (hardware tr)"
proof -
  have "s\<lparr>trace := trace s @ tr\<rparr> = s\<lparr>current_state := current_state s,
      gpio_current_state := gpio_current_state s, trace := trace s @ tr\<rparr>"
    by simp
  then show ?thesis unfolding advance_def by blast
qed

lemma performs_I:
  assumes "\<And>s. writable s \<Longrightarrow> \<exists>s'. f s = Inr s' \<and>
           advance s s' (final_word (current_state s) ps)
             (emit (duration_spinner s) (current_state s) ps)"
  shows "performs f ps"
  using assms unfolding performs_def by blast

lemma performs_D:
  assumes "performs f ps" and "writable s"
  obtains s' where "f s = Inr s'"
    and "advance s s' (final_word (current_state s) ps)
             (emit (duration_spinner s) (current_state s) ps)"
  using assms unfolding performs_def by blast

lemma performs_global_log: "performs (step (global_log m)) []"
proof (rule performs_I)
  fix s
  have "advance s (global_log m s) (current_state s) (hardware [Log m])"
    unfolding global_log_def by (rule advance_append_trace)
  then show "\<exists>s'. step (global_log m) s = Inr s' \<and>
           advance s s' (final_word (current_state s) [])
             (emit (duration_spinner s) (current_state s) [])"
    by (simp add: step_def hardware_def)
qed

lemma performs_log_sim: "performs (step (log_sim m)) []"
proof (rule performs_I)
  fix s
  assume w: "writable s"
  let ?m = "if SIMULATION_MODE s then ''[SIMULATION] '' @ m else m"
  from performs_D [OF performs_global_log w, of ?m] obtain s' where
    1: "step (global_log ?m) s = Inr s'"
       "advance s s' (final_word (current_state s) []) (emit (duration_spinner s) (current_state s) [])"
    by blast
  have "step (log_sim m) s = step (global_log ?m) s"
    by (simp add: step_def log_sim_def)
  with 1 show "\<exists>s'. step (log_sim m) s = Inr s' \<and>
           advance s s' (final_word (current_state s) [])
             (emit (duration_spinner s) (current_state s) [])"
    by simp
qed

lemma performs_sleep: "performs (step (sleep n)) [Wait n]"
proof (rule performs_I)
  fix s
  have "advance s (sleep n s) (current_state s) (hardware [Sleep n])"
    unfolding sleep_def by (rule advance_append_trace)
  then show "\<exists>s'. step (sleep n) s = Inr s' \<and>
           advance s s' (final_word (current_state s) [Wait n])
             (emit (duration_spinner s) (current_state s) [Wait n])"
    by (simp add: step_def hardware_def)
qed

lemma performs_sleep_duration: "performs (step sleep_duration) [Hold]"
proof (rule performs_I)
  fix s
  have "advance s (sleep (duration_spinner s) s) (current_state s) (hardware [Sleep (duration_spinner s)])"
    unfolding sleep_def by (rule advance_append_trace)
  then show "\<exists>s'. step sleep_duration s = Inr s' \<and>
           advance s s' (final_word (current_state s) [Hold])
             (emit (duration_spinner s) (current_state s) [Hold])"
    by (simp add: step_def hardware_def sleep_duration_def)
qed

lemma performs_run_Nil: "performs (run []) []"
  by (rule performs_I) (simp add: advance_refl)

lemma performs_run_Cons:
  assumes "performs f a" and "performs (run fs) b"
  shows "performs (run (f # fs)) (a @ b)"
proof (rule performs_I)
  fix s
  assume w: "writable s"
  from performs_D [OF assms(1) w] obtain s1 where
    1: "f s = Inr s1"
       "advance s s1 (final_word (current_state s) a) (emit (duration_spinner s) (current_state s) a)"
    by blast
  have w1: "writable s1" using 1(2) w by (rule advance_writable)
  from performs_D [OF assms(2) w1] obtain s2 where
    2: "run fs s1 = Inr s2"
       "advance s1 s2 (final_word (current_state s1) b) (emit (duration_spinner s1) (current_state s1) b)"
    by blast
  have "run (f # fs) s = Inr s2" by (simp add: 1 2)
  moreover have "advance s s2 (final_word (current_state s) (a @ b))
             (emit (duration_spinner s) (current_state s) (a @ b))"
    using advance_trans [OF 1(2) 2(2)]
    by (simp add: advance_fields [OF 1(2)] emit_append final_word_append)
  ultimately show "\<exists>s'. run (f # fs) s = Inr s' \<and>
           advance s s' (final_word (current_state s) (a @ b))
             (emit (duration_spinner s) (current_state s) (a @ b))"
    by blast
qed

lemma run_Nil_eq: "run [] = Inr"
  by (rule ext) simp

lemma performs_run_map:
  assumes "\<And>x. x \<in> set xs \<Longrightarrow> performs (f x) (g x)"
  shows "performs (run (map f xs)) (concat (map g xs))"
  using assms
proof (induction xs)
  case Nil
  show ?case using performs_run_Nil by (simp add: run_Nil_eq)
next
  case (Cons x xs)
  have "performs (run (f x # map f xs)) (g x @ concat (map g xs))"
    by (rule performs_run_Cons) (simp_all add: Cons)
  then show ?case by (simp only: list.map concat.simps)
qed

lemma performs_locked_write:
  assumes "writable s"
  shows "\<exists>s'. with_state_lock (\<lambda>t. gpio_write w (t\<lparr>current_state := w\<rparr>)) s = Inr s'
            \<and> advance s s' w [Acquire, Write w, Release]"
proof -
  let ?t = "s\<lparr>trace := trace s @ [Acquire], current_state := w\<rparr>"
  have "SIMULATION_MODE ?t \<or> \<not> gpio_raises ?t" using assms by (simp add: writable_def)
  from gpio_write_shape [OF this, of w] obtain ms g where
    gw: "gpio_write w ?t = Inr (?t\<lparr>trace := trace ?t @ Write w # map Log ms, gpio_current_state := g\<rparr>)"
    by blast
  let ?s' = "s\<lparr>current_state := w, gpio_current_state := g,
               trace := trace s @ (Acquire # Write w # map Log ms @ [Release])\<rparr>"
  have "with_state_lock (\<lambda>t. gpio_write w (t\<lparr>current_state := w\<rparr>)) s = Inr ?s'"
    by (simp add: with_state_lock_def gw)
  moreover have "hardware (Acquire # Write w # map Log ms @ [Release]) = [Acquire, Write w, Release]"
    by (simp add: hardware_def)
  ultimately show ?thesis unfolding advance_def by blast
qed

lemma performs_locked_clear: "performs (with_state_lock (clear_and_write m)) [Energize m]"
proof (rule performs_I)
  fix s
  assume w: "writable s"
  have "with_state_lock (clear_and_write m) s
      = with_state_lock (\<lambda>t. gpio_write (current_state s AND NOT m) (t\<lparr>current_state := current_state s AND NOT m\<rparr>)) s"
    by (simp add: with_state_lock_def clear_and_write_def)
  then show "\<exists>s'. with_state_lock (clear_and_write m) s = Inr s' \<and>
           advance s s' (final_word (current_state s) [Energize m])
             (emit (duration_spinner s) (current_state s) [Energize m])"
    using performs_locked_write [OF w] by simp
qed

lemma performs_locked_set: "performs (with_state_lock (set_and_write m)) [Deenergize m]"
proof (rule performs_I)
  fix s
  assume w: "writable s"
  have "with_state_lock (set_and_write m) s
      = with_state_lock (\<lambda>t. gpio_write (current_state s OR m) (t\<lparr>current_state := current_state s OR m\<rparr>)) s"
    by (simp add: with_state_lock_def set_and_write_def)
  then show "\<exists>s'. with_state_lock (set_and_write m) s = Inr s' \<and>
           advance s s' (final_word (current_state s) [Deenergize m])
             (emit (duration_spinner s) (current_state s) [Deenergize m])"
    using performs_locked_write [OF w] by simp
qed

lemma hardware_Nil [simp]: "hardware [] = []"
  by (simp add: hardware_def)

lemma with_pin_Some: "RELAY_PINS k = Some i \<Longrightarrow> with_pin k body = body (relay_mask i)"
  by (rule ext) (simp add: with_pin_def relay_mask_def)

lemma str_nat_digits:
  "str_nat 0 = ''0''" "str_nat 1 = ''1''" "str_nat 2 = ''2''" "str_nat 3 = ''3''"
  "str_nat 4 = ''4''" "str_nat 5 = ''5''" "str_nat 6 = ''6''" "str_nat 7 = ''7''"
  "str_nat 8 = ''8''" "str_nat 9 = ''9''" "str_nat (Suc 0) = ''1''"
  by (simp_all add: str_nat.simps)

lemma upt_0_10: "[0 ..< 10] = [0, 1, 2, 3, 4, 5, 6, 7, 8, 9 :: nat]"
  by code_simp

lemma RELAY_PINS_table:
  "RELAY_PINS = map_of [(''0'', 0), (''1'', 1), (''2'', 2), (''3'', 3), (''4'', 4),
                        (''5'', 5), (''6'', 6), (''7'', 7), (''8'', 8), (''9'', 9)]"
  by (simp add: RELAY_PINS_def upt_0_10 str_nat_digits)

lemma RELAY_PINS_iff: "RELAY_PINS k = Some i \<longleftrightarrow> i < 10 \<and> k = str_nat i"
proof
  assume "RELAY_PINS k = Some i"
  then have "(k, i) \<in> set [(''0'', 0), (''1'', 1), (''2'', 2), (''3'', 3), (''4'', 4),
                        (''5'', 5), (''6'', 6), (''7'', 7), (''8'', 8), (''9'', 9)]"
    unfolding RELAY_PINS_table by (rule map_of_SomeD)
  then show "i < 10 \<and> k = str_nat i"
    by (auto simp: str_nat_digits)
next
  assume a: "i < 10 \<and> k = str_nat i"
  then have "i \<in> set [0, 1, 2, 3, 4, 5, 6, 7, 8, 9]"
    unfolding upt_0_10 [symmetric] by simp
  moreover have "k = str_nat i" using a by simp
  ultimately show "RELAY_PINS k = Some i"
    by (auto simp: RELAY_PINS_table str_nat_digits)
qed

declare run.simps [simp del]

lemma performs_emits: "performs f ps \<Longrightarrow> writable s \<Longrightarrow> emits s f ps"
  unfolding emits_def by (erule (1) performs_D) (auto dest: advance_fields)

lemma RELAY_PINS_guards: "RELAY_PINS ''0'' = Some 0" "RELAY_PINS ''9'' = Some 9"
  by (simp_all add: RELAY_PINS_table)

lemma performs_guard_relays_on: "performs guard_relays_on [Energize guard_mask]"
  unfolding guard_relays_on_def
  by (simp add: with_pin_Some RELAY_PINS_guards guard_mask_def performs_locked_clear)

lemma performs_guard_relays_off: "performs guard_relays_off [Deenergize guard_mask]"
  unfolding guard_relays_off_def
  by (simp add: with_pin_Some RELAY_PINS_guards guard_mask_def performs_locked_set)

lemmas performs_intros =
  performs_run_Cons performs_run_Nil performs_log_sim performs_global_log performs_sleep
  performs_sleep_duration performs_locked_clear performs_locked_set
  performs_guard_relays_on performs_guard_relays_off

lemma performs_pulse_in_sequence:
  assumes "RELAY_PINS relay = Some i"
  shows "performs (pulse_in_sequence mode_name relay) (pulse i @ [Wait 100])"
proof -
  have "performs (pulse_in_sequence mode_name relay)
          ([] @ [Energize (relay_mask i)] @ [Hold] @ [Deenergize (relay_mask i)] @ [] @ [Wait 100] @ [])"
    unfolding pulse_in_sequence_def with_pin_Some [OF assms]
    by (intro performs_intros)
  then show ?thesis by (simp add: pulse_def)
qed

lemma performs_pulses:
  assumes "map RELAY_PINS sequence = map Some digits"
  shows "performs (run (map (pulse_in_sequence mode_name) sequence))
           (concat (map (\<lambda>digit. pulse digit @ [Wait 100]) digits))"
  using assms
proof (induction sequence arbitrary: digits)
  case Nil
  then show ?case using performs_run_Nil by simp
next
  case (Cons k ks)
  then obtain i "is" where d: "digits = i # is" "RELAY_PINS k = Some i" "map RELAY_PINS ks = map Some is"
    by (cases digits) auto
  have "performs (run (pulse_in_sequence mode_name k # map (pulse_in_sequence mode_name) ks))
          ((pulse i @ [Wait 100]) @ concat (map (\<lambda>digit. pulse digit @ [Wait 100]) is))"
    by (intro performs_run_Cons performs_pulse_in_sequence d Cons.IH)
  then show ?case by (simp add: d)
qed

lemma performs_sequence_mode_thread:
  assumes "map RELAY_PINS sequence = map Some digits"
  shows "performs (sequence_mode_thread mode_name sequence) (guardedMulti digits)"
proof -
  have "performs (sequence_mode_thread mode_name sequence)
          ([] @ [Energize guard_mask] @ [] @ [Wait 300]
             @ concat (map (\<lambda>digit. pulse digit @ [Wait 100]) digits)
             @ [Deenergize guard_mask] @ [] @ [] @ [])"
    unfolding sequence_mode_thread_def
    by (intro performs_intros performs_pulses assms)
  then show ?thesis by (simp add: guardedMulti_def)
qed

lemma performs_programming_mode_thread:
  "performs programming_mode_thread (guardedMulti [2, 1, 2, 1])"
proof -
  have "map RELAY_PINS [''2'', ''1'', ''2'', ''1''] = map Some [2, 1, 2, 1]"
    by (simp add: RELAY_PINS_table)
  then have "performs programming_mode_thread
          ([] @ [Energize guard_mask] @ [] @ [Wait 300]
             @ concat (map (\<lambda>digit. pulse digit @ [Wait 100]) [2, 1, 2, 1])
             @ [Deenergize guard_mask] @ [] @ [] @ [])"
    unfolding programming_mode_thread_def
    by (intro performs_intros performs_pulses)
  then show ?thesis by (simp add: guardedMulti_def)
qed

lemma performs_single_press_exit:
  assumes "RELAY_PINS relay_key = Some i" and "prefix ''Exit Prog Mode'' mode_name"
  shows "performs (single_press_mode_thread mode_name relay_key) (guardedSingle i)"
proof -
  have "performs (single_press_mode_thread mode_name relay_key)
          ([] @ ([Energize guard_mask] @ [] @ [Wait 300] @ [])
             @ ([] @ [Energize (relay_mask i)] @ [Hold] @ [Deenergize (relay_mask i)] @ [] @ [Wait 100] @ [])
             @ ([Deenergize guard_mask] @ [] @ []) @ [] @ [])"
    unfolding single_press_mode_thread_def with_pin_Some [OF assms(1)] if_P [OF assms(2)]
    by (intro performs_intros)
  then show ?thesis by (simp add: guardedSingle_def pulse_def)
qed

lemma performs_single_press_plain:
  assumes "RELAY_PINS relay_key = Some i" and "\<not> prefix ''Exit Prog Mode'' mode_name"
  shows "performs (single_press_mode_thread mode_name relay_key) (pulse i @ [Wait 100])"
proof -
  have "performs (single_press_mode_thread mode_name relay_key)
          ([] @ []
             @ ([] @ [Energize (relay_mask i)] @ [Hold] @ [Deenergize (relay_mask i)] @ [] @ [Wait 100] @ [])
             @ [] @ [] @ [])"
    unfolding single_press_mode_thread_def with_pin_Some [OF assms(1)] if_not_P [OF assms(2)]
    by (intro performs_intros)
  then show ?thesis by (simp add: pulse_def)
qed

lemma performs_double_press:
  assumes "RELAY_PINS relay_key1 = Some a" and "RELAY_PINS relay_key2 = Some b"
  shows "performs (double_press_mode_thread mode_name relay_key1 relay_key2) (doublePress a b)"
proof -
  have "performs (double_press_mode_thread mode_name relay_key1 relay_key2)
          ([] @ [Energize (relay_mask a OR relay_mask b)] @ [] @ [Hold]
             @ [Deenergize (relay_mask a OR relay_mask b)] @ [] @ [] @ [])"
    unfolding double_press_mode_thread_def with_pin_Some [OF assms(1)] with_pin_Some [OF assms(2)]
    by (intro performs_intros)
  then show ?thesis by (simp add: doublePress_def)
qed

lemma performs_toggle_relay_thread:
  assumes "RELAY_PINS relay_number = Some i" and "writable s"
  shows "emits s (toggle_relay_thread relay_number) (pulse i)"
proof -
  let ?f = "run [step (log_sim (''R'' @ relay_number @ '' ON'')),
            with_state_lock (clear_and_write (relay_mask i)),
            step (sleep (duration_spinner s)),
            with_state_lock (set_and_write (relay_mask i)),
            step (log_sim (''R'' @ relay_number @ '' OFF''))]"
  have "performs ?f ([] @ [Energize (relay_mask i)] @ [Wait (duration_spinner s)]
                       @ [Deenergize (relay_mask i)] @ [] @ [])"
    by (intro performs_intros)
  from performs_emits [OF this assms(2)]
  have "emits s ?f [Energize (relay_mask i), Wait (duration_spinner s), Deenergize (relay_mask i)]"
    by simp
  moreover have "toggle_relay_thread relay_number s = ?f s"
    by (simp add: toggle_relay_thread_def with_pin_Some [OF assms(1)])
  ultimately show ?thesis by (simp add: emits_def pulse_def)
qed

lemma bit_relay_mask [simp]: "bit (relay_mask i) j \<longleftrightarrow> j = i"
  by (auto simp: relay_mask_def bit_simps)

lemma when_ready_ready: "hardware_ready s \<Longrightarrow> when_ready f s = f s"
  by (simp add: when_ready_def)

lemma Gui_zone_right_emits:
  assumes "hardware_ready s" and "\<not> gpio_raises s"
  shows "emits s Gui_zone_right (guardedMulti [8, 7, 1, 2])"
  using assms
  by (simp add: emits_def Gui_zone_right_def start_thread_def Gui_sequence_mode_thread_def
      Gui_pulse_in_sequence_def run.simps step_def with_state_lock_def with_pin_def
      RELAY_PINS_table Gui_clear_and_write_def Gui_set_and_write_def Gui_gpio_write_def
      global_log_def sleep_def sleep_duration_def guardedMulti_def pulse_def guard_mask_def
      relay_mask_def hardware_def)

lemma writes_emit [simp]: "writes (emit d w ps) = words w ps"
  by (induction d w ps rule: emit.induct) auto

lemma words_append: "words w (xs @ ys) = words w xs @ words (final_word w xs) ys"
  by (induction w xs rule: words.induct) auto

lemma emits_writes:
  assumes "emits s f ps"
  shows "\<exists>s'. f s = Inr s' \<and> writes (trace s') = writes (trace s) @ words (current_state s) ps"
proof -
  from assms obtain s' where 1: "f s = Inr s'"
    "hardware (trace s') = hardware (trace s) @ emit (duration_spinner s) (current_state s) ps"
    unfolding emits_def by blast
  have "writes (hardware (trace s')) = writes (hardware (trace s) @ emit (duration_spinner s) (current_state s) ps)"
    by (simp only: 1)
  then have "writes (trace s') = writes (trace s) @ words (current_state s) ps" by simp
  with 1 show ?thesis by blast
qed

lemma emits_written:
  "emits s f ps \<Longrightarrow> written (f s) = Some (writes (trace s) @ words (current_state s) ps)"
  by (drule emits_writes) (auto simp: written_def)

lemma emits_observed:
  "emits s f ps \<Longrightarrow>
   observed (f s) = Some (hardware (trace s) @ emit (duration_spinner s) (current_state s) ps)"
  by (auto simp: emits_def observed_def)

lemma writable_idle_app: "writable idle_app"
  by (simp add: writable_def idle_app_def)

lemma idle_app_fields [simp]:
  "hardware_ready idle_app" "current_state idle_app = 0xFFFF" "trace idle_app = []"
  "duration_spinner idle_app = 500" "SIMULATION_MODE idle_app" "\<not> debug_mode idle_app"
  by (simp_all add: idle_app_def)


text \<open>Words written while the guard relays are held.\<close>

lemma bit_guard_mask: "bit guard_mask j \<longleftrightarrow> j = 0 \<or> j = 9"
  by (auto simp: guard_mask_def bit_simps)

lemma guarded_pulses_keep_guard:
  assumes "\<forall>d \<in> set digits. 1 \<le> d \<and> d \<le> 8" and "\<not> bit w 0" and "\<not> bit w 9"
  shows "(\<forall>v \<in> set (words w (concat (map (\<lambda>digit. pulse digit @ [Wait 100]) digits))).
            \<not> bit v 0 \<and> \<not> bit v 9)
         \<and> \<not> bit (final_word w (concat (map (\<lambda>digit. pulse digit @ [Wait 100]) digits))) 0
         \<and> \<not> bit (final_word w (concat (map (\<lambda>digit. pulse digit @ [Wait 100]) digits))) 9"
  using assms
proof (induction digits arbitrary: w)
  case Nil
  then show ?case by simp
next
  case (Cons d ds)
  let ?w = "w AND NOT (relay_mask d) OR relay_mask d"
  have d: "d \<noteq> 0" "d \<noteq> 9" using Cons.prems(1) by auto
  have 0: "\<not> bit (w AND NOT (relay_mask d)) 0" "\<not> bit (w AND NOT (relay_mask d)) 9"
    using Cons.prems by (simp_all add: bit_simps)
  have 1: "\<not> bit ?w 0" "\<not> bit ?w 9"
    using Cons.prems d by (auto simp: bit_simps)
  have "\<forall>d \<in> set ds. 1 \<le> d \<and> d \<le> 8" using Cons.prems(1) by simp
  from Cons.IH [OF this 1] 0 1 show ?case
    by (simp add: pulse_def)
qed

lemma words_guardedMulti:
  "words w (guardedMulti digits) =
     (w AND NOT guard_mask)
       # words (w AND NOT guard_mask) (concat (map (\<lambda>digit. pulse digit @ [Wait 100]) digits))
       @ [final_word (w AND NOT guard_mask)
            (concat (map (\<lambda>digit. pulse digit @ [Wait 100]) digits)) OR guard_mask]"
  by (simp add: guardedMulti_def words_append)


lemma emits_when_ready:
  "hardware_ready s \<Longrightarrow> writable s \<Longrightarrow> performs f ps \<Longrightarrow> emits s (when_ready (start_thread f)) ps"
  using performs_emits [of f ps s]
  by (simp add: emits_def when_ready_def start_thread_def)

lemma not_exit_names:
  "\<not> prefix ''Exit Prog Mode'' (''Scene Mode ('' @ d @ '')'')"
  "\<not> prefix ''Exit Prog Mode'' ''Channel Mode''"
  "\<not> prefix ''Exit Prog Mode'' ''Level Mode''"
  "\<not> prefix ''Exit Prog Mode'' ''Fade Short''"
  "\<not> prefix ''Exit Prog Mode'' ''Fade Long''"
  "\<not> prefix ''Exit Prog Mode'' ''Circuit Act.''"
  "\<not> prefix ''Exit Prog Mode'' ''Copy''"
  by simp_all

lemma RELAY_PINS_keys:
  "RELAY_PINS ''0'' = Some 0" "RELAY_PINS ''1'' = Some 1" "RELAY_PINS ''2'' = Some 2"
  "RELAY_PINS ''3'' = Some 3" "RELAY_PINS ''4'' = Some 4" "RELAY_PINS ''5'' = Some 5"
  "RELAY_PINS ''6'' = Some 6" "RELAY_PINS ''7'' = Some 7" "RELAY_PINS ''8'' = Some 8"
  "RELAY_PINS ''9'' = Some 9"
  by (simp_all add: RELAY_PINS_table)


lemma words_relay_ops: "words w (relay_ops ps) = words w ps"
  unfolding relay_ops_def by (induction w ps rule: words.induct) auto

lemma final_word_relay_ops: "final_word w (relay_ops ps) = final_word w ps"
  unfolding relay_ops_def by (induction w ps rule: words.induct) auto

lemma relay_ops_simps [simp]:
  "relay_ops [] = []"
  "relay_ops (Energize m # ps) = Energize m # relay_ops ps"
  "relay_ops (Deenergize m # ps) = Deenergize m # relay_ops ps"
  "relay_ops (Wait n # ps) = relay_ops ps"
  "relay_ops (Hold # ps) = relay_ops ps"
  "relay_ops (xs @ ys) = relay_ops xs @ relay_ops ys"
  by (simp_all add: relay_ops_def)

lemma relay_ops_concat: "relay_ops (concat xss) = concat (map relay_ops xss)"
  by (induction xss) auto

lemma same_env_refl [simp]: "same_env s s"
  by (simp add: same_env_def)

lemma same_env_trans: "same_env s s' \<Longrightarrow> same_env s' s'' \<Longrightarrow> same_env s s''"
  by (simp add: same_env_def)

lemma same_env_env_ok: "same_env s s' \<Longrightarrow> env_ok s \<Longrightarrow> env_ok s'"
  by (simp add: same_env_def env_ok_def)

lemma carries_weaken:
  assumes "carries s f ps'" and "relay_ops ps' = relay_ops ps"
  shows "carries s f ps"
proof -
  have "words (current_state s) ps' = words (current_state s) ps"
    "final_word (current_state s) ps' = final_word (current_state s) ps"
    using assms(2) by (metis words_relay_ops, metis final_word_relay_ops)
  with assms(1) show ?thesis by (simp add: carries_def)
qed

lemma carries_out_weaken:
  assumes "carries_out hr rs f ps'" and "relay_ops ps' = relay_ops ps"
  shows "carries_out hr rs f ps"
  using assms unfolding carries_out_def by (blast intro: carries_weaken)

lemma performs_carries:
  assumes "performs f ps" and "env_ok s"
  shows "carries s f ps"
proof -
  have "writable s" using assms(2) by (simp add: env_ok_def writable_def)
  from performs_D [OF assms(1) this] obtain s' where 1: "f s = Inr s'"
    "advance s s' (final_word (current_state s) ps) (emit (duration_spinner s) (current_state s) ps)"
    by blast
  note f = advance_fields [OF 1(2)]
  have "writes (hardware (trace s')) = writes (hardware (trace s) @ emit (duration_spinner s) (current_state s) ps)"
    by (simp only: f(2))
  then have "writes (trace s') = writes (trace s) @ words (current_state s) ps" by simp
  moreover have "same_env s s'" by (simp add: same_env_def f)
  ultimately show ?thesis using 1(1) f(1) unfolding carries_def by blast
qed

lemma performs_carries_out: "performs f ps \<Longrightarrow> carries_out hr rs f ps"
  unfolding carries_out_def by (blast intro: performs_carries)

lemma carries_out_run_Nil: "carries_out hr rs (run []) []"
  by (simp add: carries_out_def carries_def run.simps)

lemma carries_run_Cons:
  assumes "carries s f a" and "\<And>s'. same_env s s' \<Longrightarrow> carries s' (run fs) b"
  shows "carries s (run (f # fs)) (a @ b)"
proof -
  from assms(1) obtain s1 where 1: "f s = Inr s1" "same_env s s1"
    "current_state s1 = final_word (current_state s) a"
    "writes (trace s1) = writes (trace s) @ words (current_state s) a"
    unfolding carries_def by blast
  from assms(2) [OF 1(2)] obtain s2 where 2: "run fs s1 = Inr s2" "same_env s1 s2"
    "current_state s2 = final_word (current_state s1) b"
    "writes (trace s2) = writes (trace s1) @ words (current_state s1) b"
    unfolding carries_def by blast
  have "run (f # fs) s = Inr s2" by (simp add: run.simps 1 2)
  moreover have "same_env s s2" using 1(2) 2(2) by (rule same_env_trans)
  moreover have "current_state s2 = final_word (current_state s) (a @ b)"
    by (simp add: 1 2 final_word_append)
  moreover have "writes (trace s2) = writes (trace s) @ words (current_state s) (a @ b)"
    by (simp add: 1 2 words_append)
  ultimately show ?thesis unfolding carries_def by blast
qed

lemma carries_out_run_Cons:
  assumes "carries_out hr rs f a" and "carries_out hr rs (run fs) b"
  shows "carries_out hr rs (run (f # fs)) (a @ b)"
  unfolding carries_out_def
proof (intro allI impI)
  fix s
  assume s: "env_ok s \<and> hardware_ready s = hr \<and> rows s = rs"
  show "carries s (run (f # fs)) (a @ b)"
  proof (rule carries_run_Cons)
    show "carries s f a" using assms(1) s unfolding carries_out_def by blast
  next
    fix s'
    assume "same_env s s'"
    then have "env_ok s' \<and> hardware_ready s' = hr \<and> rows s' = rs"
      using s by (auto simp: same_env_def env_ok_def)
    then show "carries s' (run fs) b" using assms(2) unfolding carries_out_def by blast
  qed
qed

lemma carries_out_run_map:
  assumes "\<And>x. x \<in> set xs \<Longrightarrow> carries_out hr rs (f x) (g x)"
  shows "carries_out hr rs (run (map f xs)) (concat (map g xs))"
  using assms
proof (induction xs)
  case Nil
  show ?case using carries_out_run_Nil by simp
next
  case (Cons x xs)
  have "carries_out hr rs (run (f x # map f xs)) (g x @ concat (map g xs))"
    by (rule carries_out_run_Cons) (simp_all add: Cons)
  then show ?case by (simp only: list.map concat.simps)
qed

lemma carries_out_state_dependent:
  assumes "\<And>s. env_ok s \<Longrightarrow> hardware_ready s = hr \<Longrightarrow> rows s = rs \<Longrightarrow> carries_out hr rs (F s) ps"
  shows "carries_out hr rs (\<lambda>s. F s s) ps"
  using assms unfolding carries_out_def carries_def by blast

text \<open>The checkpoint.\<close>

lemma carries_out_wait_for_next_step: "carries_out hr rs wait_for_next_step []"
  unfolding carries_out_def
proof (intro allI impI)
  fix s
  assume s: "env_ok s \<and> hardware_ready s = hr \<and> rows s = rs"
  show "carries s wait_for_next_step []"
  proof (cases "debug_mode s")
    case False
    then show ?thesis by (simp add: carries_def wait_for_next_step_def)
  next
    case True
    then have "operator_advances s" using s by (simp add: env_ok_def)
    with True show ?thesis
      by (simp add: carries_def wait_for_next_step_def run.simps step_def step_ready_wait_def
          on_next_step_def global_log_def same_env_def)
  qed
qed

lemma carries_out_wait_for_debug:
  "carries_out hr rs (wait_for_debug None) []"
  "carries_out hr rs (wait_for_debug (Some wait_for_next_step)) []"
  using carries_out_run_Nil carries_out_wait_for_next_step
  by (simp_all add: wait_for_debug_def)

lemma carries_out_checkpoint:
  "carries_out hr rs (wait_for_debug (checkpoint_callback s)) []"
  by (simp add: checkpoint_callback_def carries_out_wait_for_debug)

lemma carries_out_assign:
  assumes "\<And>s. same_env s (f s) \<and> current_state (f s) = current_state s \<and> trace (f s) = trace s"
  shows "carries_out hr rs (step f) []"
  using assms by (simp add: carries_out_def carries_def step_def)

lemma is_digit_RELAY_PINS: "is_digit c \<Longrightarrow> RELAY_PINS [c] = Some (digit_value c)"
  by (auto simp: is_digit_def RELAY_PINS_table digit_value_def)

lemma digit_value_simps:
  "digit_value CHR ''0'' = 0" "digit_value CHR ''1'' = 1" "digit_value CHR ''2'' = 2"
  "digit_value CHR ''3'' = 3" "digit_value CHR ''4'' = 4" "digit_value CHR ''5'' = 5"
  "digit_value CHR ''6'' = 6" "digit_value CHR ''7'' = 7" "digit_value CHR ''8'' = 8"
  "digit_value CHR ''9'' = 9"
  by (simp_all add: digit_value_def)

lemma RELAY_PINS_digit:
  assumes "RELAY_PINS k = Some i"
  shows "\<exists>c. k = [c] \<and> is_digit c \<and> digit_value c = i"
proof -
  from assms have "(k, i) \<in> set [(''0'', 0), (''1'', 1), (''2'', 2), (''3'', 3), (''4'', 4),
                        (''5'', 5), (''6'', 6), (''7'', 7), (''8'', 8), (''9'', 9)]"
    unfolding RELAY_PINS_table by (rule map_of_SomeD)
  then have "(k, i) = (''0'', 0) \<or> (k, i) = (''1'', 1) \<or> (k, i) = (''2'', 2) \<or> (k, i) = (''3'', 3)
     \<or> (k, i) = (''4'', 4) \<or> (k, i) = (''5'', 5) \<or> (k, i) = (''6'', 6) \<or> (k, i) = (''7'', 7)
     \<or> (k, i) = (''8'', 8) \<or> (k, i) = (''9'', 9)"
    by simp
  then show ?thesis
    by (elim disjE) (simp_all add: is_digit_def digit_value_simps)
qed
lemma is_digit_str_nat: "c \<in> set (str_nat n) \<Longrightarrow> is_digit c"
proof (induction n rule: str_nat.induct)
  case (1 n)
  have m: "''0123456789'' ! (n mod 10) \<in> set ''0123456789''"
    by (rule nth_mem) simp
  show ?case
  proof (cases "n < 10")
    case True
    then have "str_nat n = [''0123456789'' ! n]" by (subst str_nat.simps) simp
    moreover have "''0123456789'' ! n \<in> set ''0123456789''" using True by (intro nth_mem) simp
    ultimately show ?thesis using "1.prems" unfolding is_digit_def by simp
  next
    case False
    then have "str_nat n = str_nat (n div 10) @ [''0123456789'' ! (n mod 10)]"
      by (subst str_nat.simps) simp
    with "1.prems" have "c \<in> set (str_nat (n div 10)) \<or> c = ''0123456789'' ! (n mod 10)" by auto
    then show ?thesis
    proof
      assume "c \<in> set (str_nat (n div 10))"
      then show ?thesis using False by (intro "1.IH") simp_all
    next
      assume "c = ''0123456789'' ! (n mod 10)"
      then show ?thesis using m unfolding is_digit_def by simp
    qed
  qed
qed

lemma set_zfill: "set (zfill width s) \<subseteq> insert CHR ''0'' (set s)"
  by (auto simp: zfill_def split: list.splits if_splits)

lemma is_digit_zfill:
  assumes "\<forall>c \<in> set s. is_digit c"
  shows "\<forall>c \<in> set (zfill width s). is_digit c"
proof -
  have "is_digit CHR ''0''" by (simp add: is_digit_def)
  with assms set_zfill [of width s] show ?thesis by blast
qed

lemma is_digit_channel: "\<forall>c \<in> set (zfill 2 (str_nat idx)). is_digit c"
  by (rule is_digit_zfill) (simp add: is_digit_str_nat)

lemma is_digit_fmt_02d: "\<forall>c \<in> set (fmt_02d v). is_digit c"
  unfolding fmt_02d_def by (rule is_digit_channel)

lemmas carries_leaves =
  performs_log_sim [THEN performs_carries_out]
  performs_global_log [THEN performs_carries_out]
  performs_sleep [THEN performs_carries_out]
  performs_sleep_duration [THEN performs_carries_out]
  performs_guard_relays_on [THEN performs_carries_out]
  performs_guard_relays_off [THEN performs_carries_out]
  performs_programming_mode_thread [THEN performs_carries_out]
  carries_out_wait_for_next_step
  carries_out_checkpoint

lemma carries_out_exit:
  "carries_out hr rs (single_press_mode_thread ''Exit Prog Mode'' ''8'') (guardedSingle 8)"
  by (intro performs_carries_out performs_single_press_exit) (simp_all add: RELAY_PINS_keys)

lemma carries_out_quick:
  "carries_out hr rs (double_press_mode_thread ''Quick Scene'' ''1'' ''5'') (doublePress 1 5)"
  "carries_out hr rs (double_press_mode_thread ''Quick Circuit'' ''2'' ''6'') (doublePress 2 6)"
  "carries_out hr rs (double_press_mode_thread ''Quick Level'' ''3'' ''7'') (doublePress 3 7)"
  by (rule performs_carries_out [OF performs_double_press [OF RELAY_PINS_keys(2) RELAY_PINS_keys(6)]]
           performs_carries_out [OF performs_double_press [OF RELAY_PINS_keys(3) RELAY_PINS_keys(7)]]
           performs_carries_out [OF performs_double_press [OF RELAY_PINS_keys(4) RELAY_PINS_keys(8)]])+

lemma carries_out_single_press:
  assumes "RELAY_PINS relay_key = Some i" and "\<not> prefix ''Exit Prog Mode'' mode_name"
  shows "carries_out hr rs (single_press_mode_thread mode_name relay_key) (pulse i)"
  by (rule carries_out_weaken [OF performs_carries_out [OF performs_single_press_plain [OF assms]]])
     simp

lemma performs_zone_pulse:
  assumes "RELAY_PINS relay = Some i"
  shows "performs (zone_pulse mode_name relay) [Energize (relay_mask i), Wait 500, Deenergize (relay_mask i)]"
proof -
  have "performs (zone_pulse mode_name relay)
          ([] @ [Energize (relay_mask i)] @ [Wait 500] @ [Deenergize (relay_mask i)] @ [] @ [])"
    unfolding zone_pulse_def with_pin_Some [OF assms]
    by (intro performs_intros)
  then show ?thesis by simp
qed

lemma performs_zone_digit:
  assumes "RELAY_PINS zone = Some z"
  shows "performs (zone_digit mode_name zone) (pulse z)"
proof -
  have "performs (zone_digit mode_name zone)
          ([] @ [Energize (relay_mask z)] @ [Hold] @ [Deenergize (relay_mask z)] @ [] @ [] @ [])"
    unfolding zone_digit_def with_pin_Some [OF assms]
    by (intro performs_intros)
  then show ?thesis by (simp add: pulse_def)
qed

lemmas carries_out_zone_pulses =
  performs_zone_pulse [OF RELAY_PINS_keys(9), THEN performs_carries_out]
  performs_zone_pulse [OF RELAY_PINS_keys(8), THEN performs_carries_out]
  performs_zone_pulse [OF RELAY_PINS_keys(2), THEN performs_carries_out]
  performs_zone_pulse [OF RELAY_PINS_keys(3), THEN performs_carries_out]

lemma carries_out_when_ready_True:
  "carries_out True rs f ps \<Longrightarrow> carries_out True rs (when_ready f) ps"
  by (simp add: carries_out_def carries_def when_ready_def)

lemma carries_out_when_ready_False: "carries_out False rs (when_ready f) []"
  by (simp add: carries_out_def carries_def when_ready_def show_error_slot_def same_env_def)

lemma carries_out_program_zone_ready:
  assumes "RELAY_PINS zone = Some z"
  shows "carries_out True rs (program_zone zone (checkpoint_callback s)) (zoneProgram z)"
  unfolding program_zone_def list.map
  apply (rule carries_out_when_ready_True)
  apply (rule carries_out_weaken)
   apply (rule carries_out_run_Cons carries_out_run_Nil carries_leaves carries_out_zone_pulses
      performs_zone_digit [OF assms, THEN performs_carries_out])+
  apply (simp add: zoneProgram_def guardedMulti_def pulse_def)
  done

lemma carries_out_program_zone:
  assumes "RELAY_PINS zone = Some z"
  shows "carries_out hr rs (\<lambda>s. program_zone zone (checkpoint_callback s) s)
           (if hr then zoneProgram z else [])"
proof (rule carries_out_state_dependent [where F = "\<lambda>s. program_zone zone (checkpoint_callback s)"])
  fix s
  show "carries_out hr rs (program_zone zone (checkpoint_callback s))
           (if hr then zoneProgram z else [])"
  proof (cases hr)
    case True
    then show ?thesis using carries_out_program_zone_ready [OF assms] by simp
  next
    case False
    then show ?thesis using carries_out_when_ready_False by (simp add: program_zone_def)
  qed
qed

lemma carries_out_digit_loop:
  assumes "\<forall>c \<in> set text. is_digit c" and "\<not> prefix ''Exit Prog Mode'' mode_name"
    and "carries_out hr rs (run after) []"
  shows "carries_out hr rs
           (run (map (\<lambda>digit. run (single_press_mode_thread mode_name [digit] # after)) text))
           (digitEntry text)"
proof -
  have "carries_out hr rs
           (run (map (\<lambda>digit. run (single_press_mode_thread mode_name [digit] # after)) text))
           (concat (map (\<lambda>c. pulse (digit_value c) @ []) text))"
  proof (rule carries_out_run_map)
    fix c
    assume "c \<in> set text"
    then have "RELAY_PINS [c] = Some (digit_value c)"
      using assms(1) by (simp add: is_digit_RELAY_PINS)
    then show "carries_out hr rs (run (single_press_mode_thread mode_name [c] # after))
                 (pulse (digit_value c) @ [])"
      by (intro carries_out_run_Cons carries_out_single_press assms)
  qed
  then show ?thesis by (simp add: digitEntry_def)
qed

lemma carries_out_after:
  "carries_out hr rs (run [step (sleep 500), wait_for_next_step]) []"
  "carries_out hr rs (run [step (sleep 1000)]) []"
  by (rule carries_out_weaken, (rule carries_out_run_Cons carries_out_run_Nil carries_leaves)+, simp)+

lemma not_exit_digit_names:
  "\<not> prefix ''Exit Prog Mode'' ''Circuit Digit''"
  "\<not> prefix ''Exit Prog Mode'' ''Level Digit''"
  "\<not> prefix ''Exit Prog Mode'' ''Scene digit''"
  "\<not> prefix ''Exit Prog Mode'' ''Circuit Act Digit''"
  "\<not> prefix ''Exit Prog Mode'' ''Quick Scene Digit''"
  by simp_all

lemmas carries_out_digit_loops =
  carries_out_digit_loop [OF is_digit_channel not_exit_digit_names(1) carries_out_after(1)]
  carries_out_digit_loop [OF is_digit_channel not_exit_digit_names(1) carries_out_after(2)]
  carries_out_digit_loop [OF _ not_exit_digit_names(2) carries_out_after(1)]
  carries_out_digit_loop [OF _ not_exit_digit_names(2) carries_out_after(2)]

lemma carries_out_program_channel:
  assumes "\<forall>c \<in> set level_value. is_digit c"
  shows "carries_out hr rs (program_channel scene_digit zone (idx, level_value))
           (channelProgram (idx, level_value))"
  unfolding program_channel_def prod.case
  apply (rule carries_out_weaken)
   apply (rule carries_out_run_Cons carries_out_run_Nil carries_leaves carries_out_quick
      carries_out_digit_loops is_digit_zfill assms)+
  apply (simp add: channelProgram_def)
  done

lemma carries_out_program_channels:
  assumes "RELAY_PINS scene_digit = Some sc"
    and "\<forall>(idx, level_value) \<in> set channels. \<forall>c \<in> set level_value. is_digit c"
  shows "carries_out hr rs (program_channels scene_digit zone channels)
           (doublePress 1 5 @ pulse sc @ concat (map channelProgram channels))"
proof -
  have loop: "carries_out hr rs (run (map (program_channel scene_digit zone) channels))
           (concat (map channelProgram channels))"
  proof (rule carries_out_run_map)
    fix x
    assume x: "x \<in> set channels"
    obtain idx level_value where p: "x = (idx, level_value)" by (cases x)
    with x assms(2) have "\<forall>c \<in> set level_value. is_digit c" by auto
    then show "carries_out hr rs (program_channel scene_digit zone x) (channelProgram x)"
      unfolding p by (rule carries_out_program_channel)
  qed
  show ?thesis
    unfolding program_channels_def
    apply (rule carries_out_weaken)
     apply (rule carries_out_run_Cons carries_out_run_Nil carries_leaves carries_out_quick
        carries_out_single_press [OF assms(1) not_exit_digit_names(3)] loop)+
    apply simp
    done
qed

lemma py_int_digit:
  assumes "is_digit c"
  shows "py_int [c] = Some (int (digit_value c))"
proof -
  from assms have "c = CHR ''0'' \<or> c = CHR ''1'' \<or> c = CHR ''2'' \<or> c = CHR ''3'' \<or> c = CHR ''4''
      \<or> c = CHR ''5'' \<or> c = CHR ''6'' \<or> c = CHR ''7'' \<or> c = CHR ''8'' \<or> c = CHR ''9''"
    by (simp add: is_digit_def)
  then show ?thesis
    by (elim disjE)
       (simp_all add: py_int_def strip_def isspace_def is_digit_def decimal_value_def
          digit_value_simps)
qed

lemma scene_index_of_key:
  assumes "RELAY_PINS scene_digit = Some sc"
  shows "(if scene_digit = ''0'' then Some 9 else map_option (\<lambda>v. v - 1) (py_int scene_digit))
           = Some (int (if sc = 0 then 9 else sc - 1))"
proof -
  from RELAY_PINS_digit [OF assms] obtain c where
    c: "scene_digit = [c]" "is_digit c" "digit_value c = sc" by blast
  show ?thesis
  proof (cases "c = CHR ''0''")
    case True
    then show ?thesis using c by (simp add: digit_value_simps)
  next
    case False
    then have "sc \<noteq> 0" using c(2,3) by (auto simp: is_digit_def digit_value_simps)
    then show ?thesis using c False by (simp add: py_int_digit of_nat_diff)
  qed
qed

lemma RELAY_PINS_less: "RELAY_PINS k = Some i \<Longrightarrow> i < 10"
  by (simp add: RELAY_PINS_iff)

lemma channels_to_program_matching:
  assumes "RELAY_PINS scene_digit = Some sc"
    and "\<forall>(idx, r) \<in> set numbered. length (row_scenes r) = 10"
  shows "channels_to_program scene_digit zone numbered =
     Inr (map (\<lambda>(idx, r). (idx, fmt_02d (row_scenes r ! (if sc = 0 then 9 else sc - 1))))
            (filter (\<lambda>(idx, r). row_zone r = zone) numbered))"
  using assms(2)
proof (induction numbered)
  case Nil
  show ?case by simp
next
  case (Cons x numbered)
  obtain idx r where x: "x = (idx, r)" by (cases x)
  have len: "length (row_scenes r) = 10" using Cons.prems x by simp
  have "(if sc = 0 then 9 else sc - 1) < 10" using RELAY_PINS_less [OF assms(1)] by auto
  then have ix: "py_index (row_scenes r) (int (if sc = 0 then 9 else sc - 1))
      = Some (row_scenes r ! (if sc = 0 then 9 else sc - 1))"
    using len by (simp add: py_index_def)
  have IH: "channels_to_program scene_digit zone numbered =
     Inr (map (\<lambda>(idx, r). (idx, fmt_02d (row_scenes r ! (if sc = 0 then 9 else sc - 1))))
            (filter (\<lambda>(idx, r). row_zone r = zone) numbered))"
    using Cons by simp
  show ?case
    unfolding x by (simp add: scene_index_of_key [OF assms(1)] ix IH del: of_nat_diff)
qed

lemma carries_out_rows_dependent:
  assumes "carries_out hr rs (F rs) ps"
  shows "carries_out hr rs (\<lambda>s. F (rows s) s) ps"
  using assms unfolding carries_out_def carries_def by simp

lemma carries_out_program_scene:
  assumes "RELAY_PINS zone = Some z" and "RELAY_PINS scene_digit = Some sc"
    and "channels_to_program scene_digit zone (enumerate_from 1 rs) = Inr channels"
    and "\<forall>(idx, level_value) \<in> set channels. \<forall>c \<in> set level_value. is_digit c"
  shows "carries_out hr rs (program_scene_levels_sequence scene_digit zone)
           (programSceneForZone hr sc z channels)"
proof -
  have "carries_out hr rs
     ((\<lambda>rs' s. case channels_to_program scene_digit zone (enumerate_from 1 rs') of
              Inl e \<Rightarrow> Inl (e, s)
            | Inr channels \<Rightarrow> program_channels scene_digit zone channels s) rs)
     (doublePress 1 5 @ pulse sc @ concat (map channelProgram channels))"
    unfolding assms(3) sum.case
    by (rule carries_out_program_channels [OF assms(2,4)])
  then have chan: "carries_out hr rs
     (\<lambda>s. case channels_to_program scene_digit zone (enumerate_from 1 (rows s)) of
              Inl e \<Rightarrow> Inl (e, s)
            | Inr channels \<Rightarrow> program_channels scene_digit zone channels s)
     (doublePress 1 5 @ pulse sc @ concat (map channelProgram channels))"
    by (rule carries_out_rows_dependent)
  have enable: "carries_out hr rs (step (\<lambda>s. s\<lparr>program_button := True\<rparr>)) []"
    by (rule carries_out_assign) (simp add: same_env_def)
  show ?thesis
    unfolding program_scene_levels_sequence_def
    apply (rule carries_out_weaken)
     apply (rule carries_out_run_Cons carries_out_run_Nil carries_leaves carries_out_exit
        carries_out_program_zone [OF assms(1)] chan enable)+
    apply (simp add: programSceneForZone_def)
    done
qed

lemma env_okI: "SIMULATION_MODE s \<or> \<not> gpio_raises s \<Longrightarrow> debug_mode s \<longrightarrow> operator_advances s \<Longrightarrow> env_ok s"
  by (simp add: env_ok_def)

lemma carries_outD:
  assumes "carries_out (hardware_ready s) (rows s) f ps" and "env_ok s"
  shows "\<exists>s'. f s = Inr s' \<and> same_env s s' \<and>
           writes (trace s') = writes (trace s) @ words (current_state s) ps"
  using assms unfolding carries_out_def carries_def by blast

lemma carries_written:
  assumes "carries_out (hardware_ready s) (rows s) f ps" and "env_ok s"
  shows "written (f s) = Some (writes (trace s) @ words (current_state s) ps)"
  using carries_outD [OF assms] by (auto simp: written_def)

lemma enumerate_from_rows:
  "(idx, r) \<in> set (enumerate_from k rs) \<Longrightarrow> r \<in> set rs"
  unfolding enumerate_from_def by (rule set_zip_rightD)

lemma upt_1_4: "[1 ..< 4] = [1, 2, 3 :: nat]"
  by code_simp

lemma fmt_02d_examples: "fmt_02d 30 = ''30''" "fmt_02d 3 = ''03''" "fmt_02d 5 = ''05''" "fmt_02d 0 = ''00''"
  by (simp_all add: fmt_02d_def zfill_def str_nat.simps)

lemma carries_out_allocate_row:
  "carries_out hr rs (allocate_row zone (idx, r))
     (digitEntry (zfill 2 (str_nat idx)) @ pulse (if row_zone r = zone then 1 else 0))"
proof (cases "row_zone r = zone")
  case True
  show ?thesis
    unfolding allocate_row_def prod.case Let_def if_P [OF True]
    apply (rule carries_out_weaken)
     apply (rule carries_out_run_Cons carries_out_run_Nil carries_leaves carries_out_digit_loops
        carries_out_single_press [OF RELAY_PINS_keys(2) not_exit_digit_names(4)])+
    apply simp
    done
next
  case False
  show ?thesis
    unfolding allocate_row_def prod.case Let_def if_not_P [OF False]
    apply (rule carries_out_weaken)
     apply (rule carries_out_run_Cons carries_out_run_Nil carries_leaves carries_out_digit_loops
        carries_out_single_press [OF RELAY_PINS_keys(1) not_exit_digit_names(4)])+
    apply simp
    done
qed

lemma carries_out_allocate:
  assumes "RELAY_PINS zone = Some z"
  shows "carries_out hr rs (allocate_to_zones_sequence zone)
           (allocateToZone hr z (map (\<lambda>(idx, r). (idx, row_zone r = zone)) (enumerate_from 1 rs)))"
proof -
  have "carries_out hr rs (run (map (allocate_row zone) (enumerate_from 1 rs)))
     (concat (map (\<lambda>(idx, r). digitEntry (zfill 2 (str_nat idx))
                    @ pulse (if row_zone r = zone then 1 else 0)) (enumerate_from 1 rs)))"
  proof (rule carries_out_run_map)
    fix x :: "nat \<times> row"
    obtain idx r where p: "x = (idx, r)" by (cases x)
    show "carries_out hr rs (allocate_row zone x)
        (case x of (idx, r) \<Rightarrow> digitEntry (zfill 2 (str_nat idx))
                    @ pulse (if row_zone r = zone then 1 else 0))"
      unfolding p prod.case by (rule carries_out_allocate_row)
  qed
  then have loop: "carries_out hr rs (\<lambda>s. run (map (allocate_row zone) (enumerate_from 1 (rows s))) s)
     (concat (map (\<lambda>(idx, r). digitEntry (zfill 2 (str_nat idx))
                    @ pulse (if row_zone r = zone then 1 else 0)) (enumerate_from 1 rs)))"
    by (rule carries_out_rows_dependent
          [where F = "\<lambda>rs'. run (map (allocate_row zone) (enumerate_from 1 rs'))"])
  have enable: "carries_out hr rs (step (\<lambda>s. s\<lparr>allocate_button := True\<rparr>)) []"
    by (rule carries_out_assign) (simp add: same_env_def)
  have "carries_out hr rs (execute_allocate_sequence zone)
           (allocateToZone hr z (map (\<lambda>(idx, r). (idx, row_zone r = zone)) (enumerate_from 1 rs)))"
    unfolding execute_allocate_sequence_def
    apply (rule carries_out_weaken)
     apply (rule carries_out_run_Cons carries_out_run_Nil carries_leaves carries_out_exit
        carries_out_program_zone [OF assms] loop enable)+
    apply (simp add: allocateToZone_def map_concat comp_def case_prod_unfold)
    done
  then show ?thesis by (simp add: allocate_to_zones_sequence_def start_thread_def [abs_def])
qed

lemma below_10: "i < 10 \<Longrightarrow> i \<in> set [0, 1, 2, 3, 4, 5, 6, 7, 8, 9 :: nat]"
  unfolding upt_0_10 [symmetric] by simp

lemma digit_value_nth: "i < 10 \<Longrightarrow> digit_value (''0123456789'' ! i) = i"
  by (drule below_10) (auto simp: digit_value_simps)

lemma nth_digit_not_sign:
  "i < 10 \<Longrightarrow> ''0123456789'' ! i \<noteq> CHR ''+'' \<and> ''0123456789'' ! i \<noteq> CHR ''-''"
  by (drule below_10) auto

lemma two_channel_digits:
  assumes "idx < 100"
  shows "digitEntry (zfill 2 (str_nat idx)) = pulse (idx div 10) @ pulse (idx mod 10)"
proof (cases "idx < 10")
  case True
  then have "str_nat idx = [''0123456789'' ! idx]" by (subst str_nat.simps) simp
  then have "zfill 2 (str_nat idx) = [CHR ''0'', ''0123456789'' ! idx]"
    using nth_digit_not_sign [OF True] by (simp add: zfill_def)
  then show ?thesis using True by (simp add: digitEntry_def digit_value_nth digit_value_simps)
next
  case False
  then have d: "idx div 10 < 10" using assms by simp
  then have "str_nat (idx div 10) = [''0123456789'' ! (idx div 10)]" by (subst str_nat.simps) simp
  then have "str_nat idx = [''0123456789'' ! (idx div 10), ''0123456789'' ! (idx mod 10)]"
    using False by (subst str_nat.simps) simp
  then show ?thesis using d by (simp add: zfill_def digitEntry_def digit_value_nth)
qed

lemma enumerate_from_bound:
  "(idx, r) \<in> set (enumerate_from k rs) \<Longrightarrow> idx < k + length rs"
  unfolding enumerate_from_def by (auto dest: set_zip_leftD)

lemma idle_pulse:
  assumes "d \<le> 10"
  shows "final_word 0xFFFF (pulse d) = 0xFFFF"
proof (cases "d = 10")
  case True
  then show ?thesis by (simp add: pulse_def relay_mask_def)
next
  case False
  then have "d < 10" using assms by simp
  from below_10 [OF this] show ?thesis by (auto simp: pulse_def relay_mask_def)
qed

lemma digit_value_le: "digit_value c \<le> 10"
proof -
  have "length (takeWhile (\<lambda>d. d \<noteq> c) ''0123456789'') \<le> length ''0123456789''"
    by (rule length_takeWhile_le)
  then show ?thesis by (simp add: digit_value_def)
qed

lemma idle_concat:
  "\<forall>x \<in> set xs. final_word 0xFFFF (f x) = 0xFFFF \<Longrightarrow> final_word 0xFFFF (concat (map f xs)) = 0xFFFF"
  by (induction xs) (simp_all add: final_word_append)

lemma idle_digitEntry: "final_word 0xFFFF (digitEntry text) = 0xFFFF"
  unfolding digitEntry_def by (rule idle_concat) (simp add: idle_pulse digit_value_le)

lemma idle_fixed:
  "final_word 0xFFFF (guardedSingle 8) = 0xFFFF"
  "final_word 0xFFFF (guardedMulti [2, 1, 2, 1]) = 0xFFFF"
  "final_word 0xFFFF (zoneProgram 1) = 0xFFFF"
  by (simp_all add: guardedSingle_def guardedMulti_def zoneProgram_def pulse_def guard_mask_def
      relay_mask_def)

lemma zip_replicate_right: "length xs = n \<Longrightarrow> zip xs (replicate n r) = map (\<lambda>x. (x, r)) xs"
  by (induction xs arbitrary: n) auto

lemma upt_1_101:
  "[1 ..< 101] = [1 ..< 99] @ [99, 100 :: nat]"
  "[Suc 0 ..< 101] = [Suc 0 ..< 99] @ [99, 100 :: nat]"
proof -
  have "[1 ..< 99 + 2] = [1 ..< 99] @ [99 ..< 99 + 2 :: nat]"
    by (rule upt_add_eq_append) simp
  moreover have "[99 ..< 99 + 2] = [99, 100 :: nat]" by (simp add: upt_rec)
  ultimately show "[1 ..< 101] = [1 ..< 99] @ [99, 100 :: nat]" by simp
  then show "[Suc 0 ..< 101] = [Suc 0 ..< 99] @ [99, 100 :: nat]" by simp
qed

lemma str_nat_examples: "str_nat 99 = ''99''" "str_nat 100 = ''100''" "str_nat 1 = ''1''"
  "str_nat 2 = ''2''" "str_nat 3 = ''3''"
  by (simp_all add: str_nat.simps)

lemma enumerate_from_3: "enumerate_from 1 [a, b, c] = [(1, a), (2, b), (3, c)]"
  by (simp add: enumerate_from_def upt_1_4)

section \<open>The claims\<close>

text \<open>
  C1. For every relay key \<open>"0"\<close> to \<open>"9"\<close> the pulse of \<open>_toggle_relay_thread\<close>
  clears the relay's bit and writes under the lock, sleeps for the configured duration
  outside the lock, then sets the bit and writes under the lock. If the bit is set before,
  the second write restores the word the pulse started from, the word kept in
  \<open>current_state\<close> is the same before and after, the first written word differs from it
  in the relay's bit only, and that bit is clear in the first written word alone.
\<close>

theorem pulse_holds_relay_between_writes:
  assumes "RELAY_PINS relay_number = Some i"
    and "bit (current_state s) i"
    and "SIMULATION_MODE s \<or> \<not> gpio_raises s"
  shows "\<exists>s'. toggle_relay_thread relay_number s = Inr s' \<and>
           hardware (trace s') = hardware (trace s) @
             [Acquire, Write (current_state s AND NOT (push_bit i 1)), Release,
              Sleep (duration_spinner s),
              Acquire, Write (current_state s), Release] \<and>
           current_state s' = current_state s \<and>
           i < 10 \<and>
           \<not> bit (current_state s AND NOT (push_bit i 1)) i \<and>
           (\<forall>j. j \<noteq> i \<longrightarrow> bit (current_state s AND NOT (push_bit i 1)) j = bit (current_state s) j)"
proof -
  have w: "writable s" using assms(3) by (simp add: writable_def)
  have restored: "current_state s AND NOT (relay_mask i) OR relay_mask i = current_state s"
    using assms(2) by (intro bit_eqI) (auto simp: bit_simps)
  from performs_toggle_relay_thread [OF assms(1) w] obtain s' where
    "toggle_relay_thread relay_number s = Inr s'"
    "current_state s' = final_word (current_state s) (pulse i)"
    "hardware (trace s') = hardware (trace s) @ emit (duration_spinner s) (current_state s) (pulse i)"
    unfolding emits_def by blast
  then have "toggle_relay_thread relay_number s = Inr s' \<and>
           hardware (trace s') = hardware (trace s) @
             [Acquire, Write (current_state s AND NOT (relay_mask i)), Release,
              Sleep (duration_spinner s),
              Acquire, Write (current_state s), Release] \<and>
           current_state s' = current_state s"
    by (simp add: pulse_def restored)
  moreover have "i < 10" using assms(1) by (simp add: RELAY_PINS_iff)
  moreover have "\<not> bit (current_state s AND NOT (relay_mask i)) i"
    by (simp add: bit_simps)
  moreover have "\<forall>j. j \<noteq> i \<longrightarrow> bit (current_state s AND NOT (relay_mask i)) j = bit (current_state s) j"
    by (simp add: bit_simps)
  ultimately show ?thesis unfolding relay_mask_def by blast
qed


theorem pulse_holds_relay_between_writes_witness:
  "RELAY_PINS ''3'' = Some 3 \<and> bit (current_state idle_app) 3 \<and>
   (SIMULATION_MODE idle_app \<or> \<not> gpio_raises idle_app) \<and>
   (\<exists>s'. toggle_relay_thread ''3'' idle_app = Inr s' \<and>
      hardware (trace s') =
        [Acquire, Write 0xFFF7, Release, Sleep 500, Acquire, Write 0xFFFF, Release] \<and>
      current_state s' = 0xFFFF)"
  using pulse_holds_relay_between_writes [of "''3''" 3 idle_app]
  by (auto simp add: idle_app_def RELAY_PINS_table)

text \<open>
  C7. For every pair of relay keys, \<open>_double_press_mode_thread\<close> writes exactly two
  words: the first clears both bits at once, the second, after the configured duration,
  sets both at once.
\<close>

theorem double_press_is_two_writes:
  assumes "RELAY_PINS relay_key1 = Some a" and "RELAY_PINS relay_key2 = Some b"
    and "SIMULATION_MODE s \<or> \<not> gpio_raises s"
  shows "\<exists>s'. double_press_mode_thread mode_name relay_key1 relay_key2 s = Inr s' \<and>
           writes (trace s') = writes (trace s) @
             [current_state s AND NOT (push_bit a 1 OR push_bit b 1),
              current_state s OR (push_bit a 1 OR push_bit b 1)] \<and>
           hardware (trace s') = hardware (trace s) @
             [Acquire, Write (current_state s AND NOT (push_bit a 1 OR push_bit b 1)), Release,
              Sleep (duration_spinner s),
              Acquire, Write (current_state s OR (push_bit a 1 OR push_bit b 1)), Release] \<and>
           \<not> bit (current_state s AND NOT (push_bit a 1 OR push_bit b 1)) a \<and>
           \<not> bit (current_state s AND NOT (push_bit a 1 OR push_bit b 1)) b \<and>
           bit (current_state s OR (push_bit a 1 OR push_bit b 1)) a \<and>
           bit (current_state s OR (push_bit a 1 OR push_bit b 1)) b"
proof -
  let ?M = "relay_mask a OR relay_mask b"
  have w: "writable s" using assms(3) by (simp add: writable_def)
  have e: "emits s (double_press_mode_thread mode_name relay_key1 relay_key2) (doublePress a b)"
    by (rule performs_emits [OF performs_double_press [OF assms(1,2)] w])
  have both: "current_state s AND NOT ?M OR ?M = current_state s OR ?M"
    by (rule bit_eqI) (auto simp: bit_simps)
  from e obtain s' where s':
    "double_press_mode_thread mode_name relay_key1 relay_key2 s = Inr s'"
    "hardware (trace s') = hardware (trace s)
        @ emit (duration_spinner s) (current_state s) (doublePress a b)"
    unfolding emits_def by blast
  from emits_writes [OF e] s'(1) have
    "writes (trace s') = writes (trace s) @ words (current_state s) (doublePress a b)"
    by auto
  moreover have "words (current_state s) (doublePress a b)
      = [current_state s AND NOT ?M, current_state s OR ?M]"
    by (simp only: doublePress_def words.simps both)
  ultimately have "writes (trace s') = writes (trace s) @
             [current_state s AND NOT ?M, current_state s OR ?M]"
    by (simp only:)
  moreover have "emit (duration_spinner s) (current_state s) (doublePress a b)
      = [Acquire, Write (current_state s AND NOT ?M), Release,
              Sleep (duration_spinner s),
              Acquire, Write (current_state s OR ?M), Release]"
    by (simp only: doublePress_def emit.simps both append.simps)
  then have "hardware (trace s') = hardware (trace s) @
             [Acquire, Write (current_state s AND NOT ?M), Release,
              Sleep (duration_spinner s),
              Acquire, Write (current_state s OR ?M), Release]"
    using s'(2) by (simp only:)
  moreover have "\<not> bit (current_state s AND NOT ?M) a" "\<not> bit (current_state s AND NOT ?M) b"
    "bit (current_state s OR ?M) a" "bit (current_state s OR ?M) b"
    by (simp_all add: bit_simps)
  ultimately show ?thesis using s'(1) unfolding relay_mask_def by blast
qed

theorem double_press_is_two_writes_witness:
  "RELAY_PINS ''1'' = Some 1 \<and> RELAY_PINS ''5'' = Some 5 \<and>
   (SIMULATION_MODE idle_app \<or> \<not> gpio_raises idle_app) \<and>
   (\<exists>s'. double_press_mode_thread ''Quick Scene'' ''1'' ''5'' idle_app = Inr s' \<and>
      writes (trace s') = [0xFFDD, 0xFFFF])"
  using double_press_is_two_writes [of "''1''" 1 "''5''" 5 idle_app "''Quick Scene''"]
  by (auto simp add: idle_app_def RELAY_PINS_table)

text \<open>
  C6 (as amended). For every list of relay keys none of which is a guard relay (digits 1
  to 8), \<open>_sequence_mode_thread\<close> writes in the order guard on, on and off for each
  digit in turn, guard off; the bits of the relays 0 and 9 are clear in every written word
  but the last, and set in the last.
\<close>

theorem guarded_multi_holds_guard_relays:
  assumes "map RELAY_PINS sequence = map Some digits"
    and "\<forall>d \<in> set digits. 1 \<le> d \<and> d \<le> 8"
    and "SIMULATION_MODE s \<or> \<not> gpio_raises s"
  shows "\<exists>s'. sequence_mode_thread mode_name sequence s = Inr s' \<and>
           hardware (trace s') = hardware (trace s)
              @ emit (duration_spinner s) (current_state s) (guardedMulti digits) \<and>
           writes (trace s') = writes (trace s) @ words (current_state s) (guardedMulti digits) \<and>
           (\<forall>v \<in> set (butlast (words (current_state s) (guardedMulti digits))).
               \<not> bit v 0 \<and> \<not> bit v 9) \<and>
           bit (last (words (current_state s) (guardedMulti digits))) 0 \<and>
           bit (last (words (current_state s) (guardedMulti digits))) 9"
proof -
  let ?g = "current_state s AND NOT guard_mask"
  have w: "writable s" using assms(3) by (simp add: writable_def)
  have e: "emits s (sequence_mode_thread mode_name sequence) (guardedMulti digits)"
    by (rule performs_emits [OF performs_sequence_mode_thread [OF assms(1)] w])
  have g: "\<not> bit ?g 0" "\<not> bit ?g 9" by (simp_all add: bit_simps bit_guard_mask)
  note keep = guarded_pulses_keep_guard [OF assms(2) g]
  have "\<forall>v \<in> set (butlast (words (current_state s) (guardedMulti digits))). \<not> bit v 0 \<and> \<not> bit v 9"
    using keep g by (simp add: words_guardedMulti butlast_append)
  moreover have "bit (last (words (current_state s) (guardedMulti digits))) 0"
    "bit (last (words (current_state s) (guardedMulti digits))) 9"
    by (simp_all add: words_guardedMulti bit_simps bit_guard_mask)
  moreover from e emits_writes [OF e] have "\<exists>s'. sequence_mode_thread mode_name sequence s = Inr s' \<and>
           hardware (trace s') = hardware (trace s)
              @ emit (duration_spinner s) (current_state s) (guardedMulti digits) \<and>
           writes (trace s') = writes (trace s) @ words (current_state s) (guardedMulti digits)"
    unfolding emits_def by auto
  ultimately show ?thesis by blast
qed

theorem guarded_multi_holds_guard_relays_witness:
  "map RELAY_PINS [''4'', ''5'', ''6'', ''6''] = map Some [4, 5, 6, 6] \<and>
   list_all (\<lambda>d. 1 \<le> d \<and> d \<le> 8) [4, 5, 6, 6 :: nat] \<and>
   (SIMULATION_MODE idle_app \<or> \<not> gpio_raises idle_app) \<and>
   (\<exists>s'. sequence_mode_thread ''Reset'' [''4'', ''5'', ''6'', ''6''] idle_app = Inr s' \<and>
      writes (trace s') =
        [0xFDFE, 0xFDEE, 0xFDFE, 0xFDDE, 0xFDFE, 0xFDBE, 0xFDFE, 0xFDBE, 0xFDFE, 0xFFFF])"
  using guarded_multi_holds_guard_relays
          [of "[''4'', ''5'', ''6'', ''6'']" "[4, 5, 6, 6]" idle_app "''Reset''"]
  by (auto simp add: RELAY_PINS_table guardedMulti_def pulse_def guard_mask_def relay_mask_def)

theorem guard_relay_in_sequence_counterexample:
  "written (sequence_mode_thread ''X'' [''0'', ''1'', ''1'', ''1''] idle_app) =
     Some [0xFDFE, 0xFDFE, 0xFDFF, 0xFDFD, 0xFDFF, 0xFDFD, 0xFDFF, 0xFDFD, 0xFDFF, 0xFFFF]
   \<and> bit (0xFDFF :: int) 0"
proof -
  have "map RELAY_PINS [''0'', ''1'', ''1'', ''1''] = map Some [0, 1, 1, 1]"
    by (simp add: RELAY_PINS_table)
  from emits_written [OF performs_emits [OF performs_sequence_mode_thread [OF this] writable_idle_app]]
  show ?thesis
    by (simp add: guardedMulti_def pulse_def guard_mask_def relay_mask_def)
qed

text \<open>
  C3 (as amended). Of the eight single press operations only Exit Programming Mode has the
  guarded shape: guard relays on, 0.3 s, pulse of relay 8 for the configured duration,
  0.1 s, guard relays off. Scene, Channel, Level, Fade Short, Fade Long, Circuit Activation
  and Copy pulse their relay for the configured duration and wait 0.1 s, and write nothing
  to the guard relays.
\<close>

theorem single_press_modes_guard_only_exit:
  assumes "hardware_ready s" and "SIMULATION_MODE s \<or> \<not> gpio_raises s"
    and "RELAY_PINS scene_digit = Some i"
  shows "emits s exit_programming_mode (guardedSingle 8) \<and>
         emits s (scene_mode scene_digit) (pulse i @ [Wait 100]) \<and>
         emits s channel_mode (pulse 2 @ [Wait 100]) \<and>
         emits s level_mode (pulse 3 @ [Wait 100]) \<and>
         emits s fade_short_mode (pulse 4 @ [Wait 100]) \<and>
         emits s fade_long_mode (pulse 5 @ [Wait 100]) \<and>
         emits s circuit_activation (pulse 6 @ [Wait 100]) \<and>
         emits s copy_mode (pulse 7 @ [Wait 100])"
proof -
  have w: "writable s" using assms(2) by (simp add: writable_def)
  have "performs (single_press_mode_thread ''Exit Prog Mode'' ''8'') (guardedSingle 8)"
    by (rule performs_single_press_exit) (simp_all add: RELAY_PINS_keys)
  then have "emits s exit_programming_mode (guardedSingle 8)"
    unfolding exit_programming_mode_def by (rule emits_when_ready [OF assms(1) w])
  moreover have "emits s (scene_mode scene_digit) (pulse i @ [Wait 100])"
    unfolding scene_mode_def
    by (intro emits_when_ready [OF assms(1) w] performs_single_press_plain assms(3) not_exit_names)
  moreover have "emits s channel_mode (pulse 2 @ [Wait 100])"
    unfolding channel_mode_def
    by (intro emits_when_ready [OF assms(1) w] performs_single_press_plain RELAY_PINS_keys not_exit_names)
  moreover have "emits s level_mode (pulse 3 @ [Wait 100])"
    unfolding level_mode_def
    by (intro emits_when_ready [OF assms(1) w] performs_single_press_plain RELAY_PINS_keys not_exit_names)
  moreover have "emits s fade_short_mode (pulse 4 @ [Wait 100])"
    unfolding fade_short_mode_def
    by (intro emits_when_ready [OF assms(1) w] performs_single_press_plain RELAY_PINS_keys not_exit_names)
  moreover have "emits s fade_long_mode (pulse 5 @ [Wait 100])"
    unfolding fade_long_mode_def
    by (intro emits_when_ready [OF assms(1) w] performs_single_press_plain RELAY_PINS_keys not_exit_names)
  moreover have "emits s circuit_activation (pulse 6 @ [Wait 100])"
    unfolding circuit_activation_def
    by (intro emits_when_ready [OF assms(1) w] performs_single_press_plain RELAY_PINS_keys not_exit_names)
  moreover have "emits s copy_mode (pulse 7 @ [Wait 100])"
    unfolding copy_mode_def
    by (intro emits_when_ready [OF assms(1) w] performs_single_press_plain RELAY_PINS_keys not_exit_names)
  ultimately show ?thesis by blast
qed

theorem single_press_modes_guard_only_exit_witness:
  "hardware_ready idle_app \<and> (SIMULATION_MODE idle_app \<or> \<not> gpio_raises idle_app) \<and>
   RELAY_PINS ''1'' = Some 1 \<and>
   observed (exit_programming_mode idle_app) =
     Some [Acquire, Write 0xFDFE, Release, Sleep 300, Acquire, Write 0xFCFE, Release,
           Sleep 500, Acquire, Write 0xFDFE, Release, Sleep 100, Acquire, Write 0xFFFF, Release] \<and>
   observed (scene_mode ''1'' idle_app) =
     Some [Acquire, Write 0xFFFD, Release, Sleep 500, Acquire, Write 0xFFFF, Release, Sleep 100]"
proof -
  have h: "hardware_ready idle_app" "SIMULATION_MODE idle_app \<or> \<not> gpio_raises idle_app"
    "RELAY_PINS ''1'' = Some 1"
    by (simp_all add: RELAY_PINS_keys)
  from single_press_modes_guard_only_exit [OF h]
  have "emits idle_app exit_programming_mode (guardedSingle 8)"
    "emits idle_app (scene_mode ''1'') (pulse 1 @ [Wait 100])"
    by blast+
  from this [THEN emits_observed] h show ?thesis
    by (simp add: guardedSingle_def pulse_def guard_mask_def relay_mask_def)
qed

theorem channel_mode_unguarded_counterexample:
  "observed (channel_mode idle_app) =
     Some [Acquire, Write 0xFFFB, Release, Sleep 500, Acquire, Write 0xFFFF, Release, Sleep 100]
   \<and> emit 500 0xFFFF (guardedSingle 2) =
     [Acquire, Write 0xFDFE, Release, Sleep 300, Acquire, Write 0xFDFA, Release,
      Sleep 500, Acquire, Write 0xFDFE, Release, Sleep 100, Acquire, Write 0xFFFF, Release]"
proof -
  have "performs (single_press_mode_thread ''Channel Mode'' ''2'') (pulse 2 @ [Wait 100])"
    by (intro performs_single_press_plain RELAY_PINS_keys not_exit_names)
  then have "emits idle_app channel_mode (pulse 2 @ [Wait 100])"
    unfolding channel_mode_def by (intro emits_when_ready writable_idle_app) simp_all
  from emits_observed [OF this] show ?thesis
    by (simp add: guardedSingle_def pulse_def guard_mask_def relay_mask_def)
qed

text \<open>
  C2 (as amended). When the hardware is ready, the fixed digit sequences are: entry into
  programming mode pulses the relays 2, 1, 2, 1; Reset (once confirmed) pulses 4, 5, 6, 6;
  Zone Left pulses 8, 7, 1, 1; Zone Right pulses 8, 7, 2, 2 in relay\_control.py and
  8, 7, 1, 2 in Gui.py; each between the guard relays going on and off, in that order.
\<close>

theorem fixed_digit_sequences:
  assumes "hardware_ready s" and "SIMULATION_MODE s \<or> \<not> gpio_raises s"
  shows "emits s programming_mode (guardedMulti [2, 1, 2, 1]) \<and>
         emits s (reset_mode True) (guardedMulti [4, 5, 6, 6]) \<and>
         emits s zone_left (guardedMulti [8, 7, 1, 1]) \<and>
         emits s zone_right (guardedMulti [8, 7, 2, 2]) \<and>
         (\<not> gpio_raises s \<longrightarrow> emits s Gui_zone_right (guardedMulti [8, 7, 1, 2]))"
proof -
  have w: "writable s" using assms(2) by (simp add: writable_def)
  have "emits s programming_mode (guardedMulti [2, 1, 2, 1])"
    unfolding programming_mode_def
    by (intro emits_when_ready [OF assms(1) w] performs_programming_mode_thread)
  moreover have "emits s (when_ready (start_thread (sequence_mode_thread ''Reset'' [''4'', ''5'', ''6'', ''6''])))
       (guardedMulti [4, 5, 6, 6])"
    by (intro emits_when_ready [OF assms(1) w] performs_sequence_mode_thread)
       (simp add: RELAY_PINS_keys)
  then have "emits s (reset_mode True) (guardedMulti [4, 5, 6, 6])"
    by (simp add: reset_mode_def emits_def when_ready_def)
  moreover have "emits s zone_left (guardedMulti [8, 7, 1, 1])"
    unfolding zone_left_def
    by (intro emits_when_ready [OF assms(1) w] performs_sequence_mode_thread)
       (simp add: RELAY_PINS_keys)
  moreover have "emits s zone_right (guardedMulti [8, 7, 2, 2])"
    unfolding zone_right_def
    by (intro emits_when_ready [OF assms(1) w] performs_sequence_mode_thread)
       (simp add: RELAY_PINS_keys)
  moreover have "\<not> gpio_raises s \<longrightarrow> emits s Gui_zone_right (guardedMulti [8, 7, 1, 2])"
    using assms(1) by (blast intro: Gui_zone_right_emits)
  ultimately show ?thesis by blast
qed

theorem fixed_digit_sequences_witness:
  "hardware_ready idle_app \<and> (SIMULATION_MODE idle_app \<or> \<not> gpio_raises idle_app) \<and>
   \<not> gpio_raises idle_app \<and>
   written (programming_mode idle_app) =
     Some [0xFDFE, 0xFDFA, 0xFDFE, 0xFDFC, 0xFDFE, 0xFDFA, 0xFDFE, 0xFDFC, 0xFDFE, 0xFFFF] \<and>
   written (Gui_zone_right idle_app) =
     Some [0xFDFE, 0xFCFE, 0xFDFE, 0xFD7E, 0xFDFE, 0xFDFC, 0xFDFE, 0xFDFA, 0xFDFE, 0xFFFF]"
proof -
  have h: "hardware_ready idle_app" "SIMULATION_MODE idle_app \<or> \<not> gpio_raises idle_app"
    by simp_all
  have r: "\<not> gpio_raises idle_app" by (simp add: idle_app_def)
  from fixed_digit_sequences [OF h] r
  have "emits idle_app programming_mode (guardedMulti [2, 1, 2, 1])"
    "emits idle_app Gui_zone_right (guardedMulti [8, 7, 1, 2])"
    by blast+
  from this [THEN emits_written] h r show ?thesis
    by (simp add: guardedMulti_def pulse_def guard_mask_def relay_mask_def)
qed

theorem zone_right_digits_counterexample:
  "written (zone_right idle_app) =
     Some [0xFDFE, 0xFCFE, 0xFDFE, 0xFD7E, 0xFDFE, 0xFDFA, 0xFDFE, 0xFDFA, 0xFDFE, 0xFFFF]
   \<and> words 0xFFFF (guardedMulti [8, 7, 1, 2]) =
     [0xFDFE, 0xFCFE, 0xFDFE, 0xFD7E, 0xFDFE, 0xFDFC, 0xFDFE, 0xFDFA, 0xFDFE, 0xFFFF]"
proof -
  have "map RELAY_PINS [''8'', ''7'', ''2'', ''2''] = map Some [8, 7, 2, 2]"
    by (simp add: RELAY_PINS_keys)
  then have "emits idle_app zone_right (guardedMulti [8, 7, 2, 2])"
    unfolding zone_right_def
    by (intro emits_when_ready writable_idle_app performs_sequence_mode_thread) simp_all
  from emits_written [OF this] show ?thesis
    by (simp add: guardedMulti_def pulse_def guard_mask_def relay_mask_def)
qed

text \<open>
  C4. For every table whose rows have ten scenes, every zone digit and every scene digit,
  \<open>program_scene_levels_sequence\<close> runs to its end and writes, between the fixed
  opening (exit, zone programming, programming mode, Quick Scene, scene digit) and the
  closing exit, one block for each row whose zone is the target zone and nothing for the
  other rows, in table order: Quick Circuit, the digits of the channel number, Quick Level,
  the two digits of the level, which is the row's scene value at index digit - 1 for the
  scene digits 1 to 9 and at index 9 for the scene digit 0.
\<close>

theorem program_scene_programs_matching_rows:
  assumes "SIMULATION_MODE s \<or> \<not> gpio_raises s"
    and "debug_mode s \<longrightarrow> operator_advances s"
    and "RELAY_PINS zone = Some z"
    and "RELAY_PINS scene_digit = Some sc"
    and "\<forall>r \<in> set (rows s). length (row_scenes r) = 10"
  shows "\<exists>s'. program_scene_levels_sequence scene_digit zone s = Inr s' \<and>
           writes (trace s') = writes (trace s) @ words (current_state s)
             (programSceneForZone (hardware_ready s) sc z
                (map (\<lambda>(idx, r). (idx, fmt_02d (row_scenes r ! (if sc = 0 then 9 else sc - 1))))
                   (filter (\<lambda>(idx, r). row_zone r = zone) (enumerate_from 1 (rows s)))))"
proof -
  let ?channels = "map (\<lambda>(idx, r). (idx, fmt_02d (row_scenes r ! (if sc = 0 then 9 else sc - 1))))
                   (filter (\<lambda>(idx, r). row_zone r = zone) (enumerate_from 1 (rows s)))"
  have env: "env_ok s" using assms(1,2) by (rule env_okI)
  have "\<forall>(idx, r) \<in> set (enumerate_from 1 (rows s)). length (row_scenes r) = 10"
    using assms(5) by (auto dest: enumerate_from_rows)
  then have chans: "channels_to_program scene_digit zone (enumerate_from 1 (rows s)) = Inr ?channels"
    by (rule channels_to_program_matching [OF assms(4)])
  have digits: "\<forall>(idx, level_value) \<in> set ?channels. \<forall>c \<in> set level_value. is_digit c"
    using is_digit_fmt_02d by auto
  from carries_outD [OF carries_out_program_scene [OF assms(3,4) chans digits] env]
  show ?thesis by blast
qed

theorem program_scene_programs_matching_rows_witness:
  "(SIMULATION_MODE three_rows \<or> \<not> gpio_raises three_rows) \<and>
   \<not> debug_mode three_rows \<and>
   RELAY_PINS ''2'' = Some 2 \<and> RELAY_PINS ''3'' = Some 3 \<and> RELAY_PINS ''0'' = Some 0 \<and>
   list_all (\<lambda>r. length (row_scenes r) = 10) (rows three_rows) \<and>
   written (program_scene_levels_sequence ''3'' ''2'' three_rows) =
     Some (words 0xFFFF (programSceneForZone True 3 2 [(1, ''30''), (3, ''03'')])) \<and>
   written (program_scene_levels_sequence ''0'' ''2'' three_rows) =
     Some (words 0xFFFF (programSceneForZone True 0 2 [(1, ''05''), (3, ''00'')]))"
proof -
  have h: "SIMULATION_MODE three_rows \<or> \<not> gpio_raises three_rows"
    "debug_mode three_rows \<longrightarrow> operator_advances three_rows"
    "RELAY_PINS ''2'' = Some 2"
    by (simp_all add: three_rows_def idle_app_def RELAY_PINS_keys)
  have r: "\<forall>r \<in> set (rows three_rows). length (row_scenes r) = 10"
    by (simp add: three_rows_def)
  have f: "hardware_ready three_rows = True" "current_state three_rows = 0xFFFF"
    "writes (trace three_rows) = []"
    by (simp_all add: three_rows_def idle_app_def)
  have c3: "map (\<lambda>(idx, r). (idx, fmt_02d (row_scenes r ! (if (3::nat) = 0 then 9 else 3 - 1))))
       (filter (\<lambda>(idx, r). row_zone r = ''2'') (enumerate_from 1 (rows three_rows)))
     = [(1, ''30''), (3, ''03'')]"
    by (simp add: three_rows_def enumerate_from_def upt_1_4 fmt_02d_examples)
  have c0: "map (\<lambda>(idx, r). (idx, fmt_02d (row_scenes r ! (if (0::nat) = 0 then 9 else 0 - 1))))
       (filter (\<lambda>(idx, r). row_zone r = ''2'') (enumerate_from 1 (rows three_rows)))
     = [(1, ''05''), (3, ''00'')]"
    by (simp add: three_rows_def enumerate_from_def upt_1_4 fmt_02d_examples)
  have "written (program_scene_levels_sequence ''3'' ''2'' three_rows) =
     Some (words 0xFFFF (programSceneForZone True 3 2 [(1, ''30''), (3, ''03'')]))"
    using program_scene_programs_matching_rows [OF h RELAY_PINS_keys(4) r]
    unfolding c3 f by (auto simp: written_def)
  moreover have "written (program_scene_levels_sequence ''0'' ''2'' three_rows) =
     Some (words 0xFFFF (programSceneForZone True 0 2 [(1, ''05''), (3, ''00'')]))"
    using program_scene_programs_matching_rows [OF h RELAY_PINS_keys(1) r]
    unfolding c0 f by (auto simp: written_def)
  ultimately show ?thesis
    using h r by (simp add: RELAY_PINS_keys list_all_iff three_rows_def idle_app_def)
qed

text \<open>
  C5 (as amended). For every table of at most 99 rows and every zone digit,
  \<open>allocate_to_zones_sequence\<close> runs to its end and visits every row in table order:
  for each row it pulses the two digits of the channel number, padded with a zero, and then
  the digit 1 if the row's zone is the target zone and the digit 0 otherwise.
\<close>

theorem allocate_visits_every_row:
  assumes "SIMULATION_MODE s \<or> \<not> gpio_raises s"
    and "debug_mode s \<longrightarrow> operator_advances s"
    and "RELAY_PINS zone = Some z"
    and "length (rows s) \<le> 99"
  shows "\<exists>s'. allocate_to_zones_sequence zone s = Inr s' \<and>
           writes (trace s') = writes (trace s) @ words (current_state s)
             (guardedSingle 8 @ (if hardware_ready s then zoneProgram z else [])
                @ guardedMulti [2, 1, 2, 1]
                @ concat (map (\<lambda>(idx, r). pulse (idx div 10) @ pulse (idx mod 10)
                                 @ pulse (if row_zone r = zone then 1 else 0))
                            (enumerate_from 1 (rows s)))
                @ guardedSingle 8)"
proof -
  have env: "env_ok s" using assms(1,2) by (rule env_okI)
  have m: "map (\<lambda>(idx, r). digitEntry (zfill 2 (str_nat idx)) @ pulse (if row_zone r = zone then 1 else 0))
          (enumerate_from 1 (rows s))
      = map (\<lambda>(idx, r). pulse (idx div 10) @ pulse (idx mod 10)
                                 @ pulse (if row_zone r = zone then 1 else 0))
          (enumerate_from 1 (rows s))"
  proof (rule map_cong [OF refl])
    fix x assume x: "x \<in> set (enumerate_from 1 (rows s))"
    obtain idx r where p: "x = (idx, r)" by (cases x)
    from x p have "idx < 1 + length (rows s)" by (auto dest: enumerate_from_bound)
    then have "idx < 100" using assms(4) by simp
    then show "(case x of (idx, r) \<Rightarrow> digitEntry (zfill 2 (str_nat idx)) @ pulse (if row_zone r = zone then 1 else 0))
      = (case x of (idx, r) \<Rightarrow> pulse (idx div 10) @ pulse (idx mod 10)
                                 @ pulse (if row_zone r = zone then 1 else 0))"
      unfolding p by (simp add: two_channel_digits)
  qed
  have c: "map (\<lambda>(idx, allocated). digitEntry (zfill 2 (str_nat idx)) @ pulse (if allocated then 1 else 0))
          (map (\<lambda>(idx, r). (idx, row_zone r = zone)) (enumerate_from 1 (rows s)))
      = map (\<lambda>(idx, r). digitEntry (zfill 2 (str_nat idx)) @ pulse (if row_zone r = zone then 1 else 0))
          (enumerate_from 1 (rows s))"
    by (simp add: case_prod_unfold comp_def)
  have "allocateToZone (hardware_ready s) z
       (map (\<lambda>(idx, r). (idx, row_zone r = zone)) (enumerate_from 1 (rows s)))
     = guardedSingle 8 @ (if hardware_ready s then zoneProgram z else [])
                @ guardedMulti [2, 1, 2, 1]
                @ concat (map (\<lambda>(idx, r). pulse (idx div 10) @ pulse (idx mod 10)
                                 @ pulse (if row_zone r = zone then 1 else 0))
                            (enumerate_from 1 (rows s)))
                @ guardedSingle 8"
    by (simp only: allocateToZone_def c m)
  with carries_outD [OF carries_out_allocate [OF assms(3)] env]
  show ?thesis by auto
qed

theorem allocate_visits_every_row_witness:
  "(SIMULATION_MODE zones_5_1_5 \<or> \<not> gpio_raises zones_5_1_5) \<and> \<not> debug_mode zones_5_1_5 \<and>
   RELAY_PINS ''5'' = Some 5 \<and> length (rows zones_5_1_5) \<le> 99 \<and>
   written (allocate_to_zones_sequence ''5'' zones_5_1_5) =
     Some (words 0xFFFF
       (guardedSingle 8 @ zoneProgram 5 @ guardedMulti [2, 1, 2, 1]
          @ (pulse 0 @ pulse 1 @ pulse 1) @ (pulse 0 @ pulse 2 @ pulse 0)
          @ (pulse 0 @ pulse 3 @ pulse 1) @ guardedSingle 8))"
proof -
  have h: "SIMULATION_MODE zones_5_1_5 \<or> \<not> gpio_raises zones_5_1_5"
    "debug_mode zones_5_1_5 \<longrightarrow> operator_advances zones_5_1_5"
    "RELAY_PINS ''5'' = Some 5" "length (rows zones_5_1_5) \<le> 99"
    by (simp_all add: zones_5_1_5_def idle_app_def RELAY_PINS_keys)
  have f: "hardware_ready zones_5_1_5 = True" "current_state zones_5_1_5 = 0xFFFF"
    "writes (trace zones_5_1_5) = []"
    by (simp_all add: zones_5_1_5_def idle_app_def)
  have c: "concat (map (\<lambda>(idx, r). pulse (idx div 10) @ pulse (idx mod 10)
                                 @ pulse (if row_zone r = ''5'' then 1 else 0))
                            (enumerate_from 1 (rows zones_5_1_5)))
      = (pulse 0 @ pulse 1 @ pulse 1) @ (pulse 0 @ pulse 2 @ pulse 0) @ (pulse 0 @ pulse 3 @ pulse 1)"
  proof -
    have "rows zones_5_1_5 = [default_row\<lparr>row_zone := ''5''\<rparr>, default_row\<lparr>row_zone := ''1''\<rparr>,
      default_row\<lparr>row_zone := ''5''\<rparr>]"
      by (simp add: zones_5_1_5_def)
    then show ?thesis by (simp only: enumerate_from_3) (simp add: default_row_def)
  qed
  have "written (allocate_to_zones_sequence ''5'' zones_5_1_5) =
     Some (words 0xFFFF
       (guardedSingle 8 @ zoneProgram 5 @ guardedMulti [2, 1, 2, 1]
          @ ((pulse 0 @ pulse 1 @ pulse 1) @ (pulse 0 @ pulse 2 @ pulse 0)
          @ (pulse 0 @ pulse 3 @ pulse 1)) @ guardedSingle 8))"
    using allocate_visits_every_row [OF h]
    unfolding c f by (auto simp: written_def)
  then show ?thesis
    using h by (simp add: zones_5_1_5_def idle_app_def)
qed

theorem three_channel_digits_counterexample:
  "final_writes 14 (allocate_to_zones_sequence ''1'' hundred_rows) =
     Some [0xFFFD, 0xFFFF,
           0xFFFD, 0xFFFF, 0xFFFE, 0xFFFF, 0xFFFE, 0xFFFF,
           0xFFFD, 0xFFFF,
           0xFDFE, 0xFCFE, 0xFDFE, 0xFFFF]"
proof -
  let ?row = "\<lambda>(idx, allocated). digitEntry (zfill 2 (str_nat idx)) @ pulse (if allocated then 1 else (0::nat))"
  let ?first = "map (\<lambda>x. (x, True)) [1 ..< 99]"
  let ?pre = "guardedSingle 8 @ zoneProgram 1 @ guardedMulti [2, 1, 2, 1] @ concat (map ?row ?first)"
  let ?tail = "?row (99, True) @ ?row (100, True) @ guardedSingle 8"
  have env: "env_ok hundred_rows" by (simp add: env_ok_def hundred_rows_def idle_app_def)
  have f: "hardware_ready hundred_rows = True" "current_state hundred_rows = 0xFFFF"
    "writes (trace hundred_rows) = []" "rows hundred_rows = replicate 100 default_row"
    by (simp_all add: hundred_rows_def idle_app_def)
  have "enumerate_from 1 (replicate 100 default_row) = map (\<lambda>x. (x, default_row)) [1 ..< 101]"
    unfolding enumerate_from_def by (simp add: zip_replicate_right)
  then have a: "map (\<lambda>(idx, r). (idx, row_zone r = ''1'')) (enumerate_from 1 (replicate 100 default_row))
      = ?first @ [(99, True), (100, True)]"
    by (simp add: upt_1_101 default_row_def comp_def)
  have p: "allocateToZone True 1 (?first @ [(99, True), (100, True)]) = ?pre @ ?tail"
    by (simp add: allocateToZone_def)
  have "final_word 0xFFFF (concat (map ?row ?first)) = 0xFFFF"
    by (rule idle_concat) (auto simp: final_word_append idle_digitEntry idle_pulse)
  then have i: "final_word 0xFFFF ?pre = 0xFFFF"
    by (simp only: final_word_append idle_fixed)
  have t: "words 0xFFFF ?tail =
     [0xFDFF, 0xFFFF, 0xFDFF, 0xFFFF,
      0xFFFD, 0xFFFF,
      0xFFFD, 0xFFFF, 0xFFFE, 0xFFFF, 0xFFFE, 0xFFFF,
      0xFFFD, 0xFFFF,
      0xFDFE, 0xFCFE, 0xFDFE, 0xFFFF]"
    by (simp add: str_nat_examples zfill_def digitEntry_def digit_value_simps pulse_def
        guardedSingle_def guard_mask_def relay_mask_def)
  have "written (allocate_to_zones_sequence ''1'' hundred_rows)
      = Some (words 0xFFFF ?pre @ words 0xFFFF ?tail)"
    using carries_written [OF carries_out_allocate [OF RELAY_PINS_keys(2)] env]
    unfolding f a p by (simp only: words_append i append_Nil)
  then show ?thesis
    unfolding t by (simp add: final_writes_def)
qed

end
